theory Spec2Isabelle
  imports Main
begin

section \<open>Text: the string methods the note cache uses\<close>

text \<open>
  A Python \<open>str\<close> is modelled as a \<open>string\<close>; a character stands for the code point of
  the same number, so the model covers text over the code points 0 to 255.
  \<open>isspace\<close> is \<open>str.isspace\<close> on that range: tab, line feed, vertical tab, form feed,
  carriage return, the four separators 28 to 31, the blank, NEL (133) and the no-break
  space (160). \<open>strip()\<close>, \<open>lstrip()\<close> and \<open>split()\<close> without argument all use it.
\<close>

definition isspace :: "char \<Rightarrow> bool" where
  "isspace c = (let n = (of_char c :: nat) in
     (9 \<le> n \<and> n \<le> 13) \<or> (28 \<le> n \<and> n \<le> 32) \<or> n = 133 \<or> n = 160)"

definition str_lstrip :: "string \<Rightarrow> string" where
  "str_lstrip s = dropWhile isspace s"

definition str_rstrip :: "string \<Rightarrow> string" where
  "str_rstrip s = rev (dropWhile isspace (rev s))"

definition str_strip :: "string \<Rightarrow> string" where
  "str_strip s = str_rstrip (str_lstrip s)"

text \<open>\<open>s.lstrip(chars)\<close>: the argument is a set of characters, not a prefix.\<close>

definition str_lstrip_chars :: "string \<Rightarrow> string \<Rightarrow> string" where
  "str_lstrip_chars chars s = dropWhile (\<lambda>c. c \<in> set chars) s"

definition str_startswith :: "string \<Rightarrow> string \<Rightarrow> bool" where
  "str_startswith s p = (take (length p) s = p)"

text \<open>\<open>s.split()\<close>: the maximal runs of characters that are not whitespace.\<close>

fun split_run :: "string \<Rightarrow> string \<Rightarrow> string list" where
  "split_run cur [] = (if cur = [] then [] else [cur])"
| "split_run cur (c # cs) =
     (if isspace c then (if cur = [] then split_run [] cs else cur # split_run [] cs)
      else split_run (cur @ [c]) cs)"

definition str_split :: "string \<Rightarrow> string list" where
  "str_split s = split_run [] s"

fun str_join :: "string \<Rightarrow> string list \<Rightarrow> string" where
  "str_join sep [] = []"
| "str_join sep [x] = x"
| "str_join sep (x # y # ys) = x @ sep @ str_join sep (y # ys)"

text \<open>
  \<open>str.lower\<close> on the code points 0 to 255: the letters A to Z and the accented capitals
  192 to 222 (without the multiplication sign 215) move up by 32.
\<close>

definition lower_char :: "char \<Rightarrow> char" where
  "lower_char c = (let n = (of_char c :: nat) in
     if (65 \<le> n \<and> n \<le> 90) \<or> (192 \<le> n \<and> n \<le> 222 \<and> n \<noteq> 215) then char_of (n + 32) else c)"

definition str_lower :: "string \<Rightarrow> string" where
  "str_lower s = map lower_char s"

text \<open>
  \<open>f.readline()\<close> on a file opened in text mode: the line up to and with its end, where
  each of the three line ends (LF, CR LF, CR) is handed over as one LF; the result is the
  line and the rest of the file. At the end of the file the line is empty.
\<close>

fun readline :: "string \<Rightarrow> string \<times> string" where
  "readline [] = ([], [])"
| "readline (c # cs) =
     (if c = CHR 0x0A then ([CHR 0x0A], cs)
      else if c = CHR 0x0D then
        ([CHR 0x0A], (case cs of [] \<Rightarrow> [] | d # ds \<Rightarrow> if d = CHR 0x0A then ds else cs))
      else (case readline cs of (l, r) \<Rightarrow> (c # l, r)))"

section \<open>Paths, the configuration and the file system\<close>

text \<open>
  A \<open>pathlib.Path\<close> (on POSIX) is represented by its \<open>str()\<close>, the normal form that the
  constructor computes: the root (\<open>/\<close>, or \<open>//\<close> for exactly two leading slashes), then the
  components that are neither empty nor \<open>.\<close>, joined by single slashes; the empty path is
  \<open>.\<close>. Two paths are equal when these strings are, and \<open>a / b\<close> is the normal form of
  \<open>os.path.join(a, b)\<close>, so an absolute right operand replaces the left one.
\<close>

type_synonym path = string

fun split_on :: "char \<Rightarrow> string \<Rightarrow> string list" where
  "split_on sep [] = [[]]"
| "split_on sep (c # cs) =
     (if c = sep then [] # split_on sep cs
      else (case split_on sep cs of [] \<Rightarrow> [[c]] | p # ps \<Rightarrow> (c # p) # ps))"

definition Path :: "string \<Rightarrow> path" where
  "Path s =
     (let root = (if str_startswith s ''//'' \<and> \<not> str_startswith s ''///'' then ''//''
                  else if str_startswith s ''/'' then ''/'' else []);
          parts = filter (\<lambda>p. p \<noteq> [] \<and> p \<noteq> ''.'') (split_on CHR ''/'' s)
      in if root = [] \<and> parts = [] then ''.'' else root @ str_join ''/'' parts)"

definition posix_join :: "string \<Rightarrow> string \<Rightarrow> string" where
  "posix_join a b =
     (if str_startswith b ''/'' then b
      else if a = [] \<or> last a = CHR ''/'' then a @ b
      else a @ ''/'' @ b)"

definition joinpath :: "path \<Rightarrow> path \<Rightarrow> path" where
  "joinpath a b = Path (posix_join a b)"

text \<open>
  The two configuration values that \<open>Cache\<close> reads (\<open>note.file_ext\<close> and
  \<open>note.location\<close>, both taken as present), and \<open>Path.expanduser\<close>, which depends on the
  user database of the machine and is a parameter.
\<close>

record config =
  note_file_ext :: string
  note_location :: string
  expanduser :: "path \<Rightarrow> path"

text \<open>
  The file system: \<open>files\<close> maps the path of each readable text file to its text,
  \<open>others\<close> holds the paths that exist and cannot be read as a note (directories, files
  without permission), and \<open>can_rename\<close> is the verdict of the operating system on
  \<open>os.rename\<close> (a missing target directory, a target that is a directory, permissions).
  Each file is reached by one path string only. A rename that succeeds replaces the target.
\<close>

record filesystem =
  files :: "path \<rightharpoonup> string"
  others :: "path set"
  can_rename :: "path \<Rightarrow> path \<Rightarrow> bool"

datatype error = NoteFormatError | KeyError | OSError

definition exists_path :: "filesystem \<Rightarrow> path \<Rightarrow> bool" where
  "exists_path fs p = (p \<in> dom (files fs) \<or> p \<in> others fs)"

definition open_read :: "filesystem \<Rightarrow> path \<Rightarrow> error + string" where
  "open_read fs p = (case files fs p of None \<Rightarrow> Inl OSError | Some text \<Rightarrow> Inr text)"

definition rename :: "filesystem \<Rightarrow> path \<Rightarrow> path \<Rightarrow> error + filesystem" where
  "rename fs src dst =
     (case files fs src of
        None \<Rightarrow> Inl OSError
      | Some text \<Rightarrow>
          if can_rename fs src dst
          then Inr (fs\<lparr>files := (files fs)(src := None, dst \<mapsto> text), others := others fs - {dst}\<rparr>)
          else Inl OSError)"

section \<open>Parsing a note\<close>

text \<open>
  \<open>read_note_name\<close> and \<open>read_note_tags\<close> are the bodies of \<open>Cache.extract_note_name\<close> and
  \<open>Cache.extract_note_tags\<close> under \<open>with open(note, 'r') as f\<close>, on the text of the file.
  The check looks at the stripped line; the name is cut from the line as read, with
  \<open>l.lstrip('##')\<close>; each token of the second line loses its first character (\<open>t[1:]\<close>).
\<close>

definition read_note_name :: "string \<Rightarrow> error + string" where
  "read_note_name text =
     (let l = fst (readline text) in
      if \<not> str_startswith (str_strip l) ''##'' then Inl NoteFormatError
      else Inr (str_strip (str_lstrip_chars ''##'' l)))"

definition read_note_tags :: "string \<Rightarrow> error + string list" where
  "read_note_tags text =
     (case readline text of (l1, rest) \<Rightarrow>
        if \<not> str_startswith (str_strip l1) ''##'' then Inl NoteFormatError
        else (let l = fst (readline rest) in
              if \<not> str_startswith (str_strip l) ''#'' then Inl NoteFormatError
              else Inr (map (\<lambda>t. str_strip (drop 1 t)) (str_split l))))"

definition extract_note_name :: "filesystem \<Rightarrow> path \<Rightarrow> error + string" where
  "extract_note_name fs note =
     (case open_read fs note of Inl e \<Rightarrow> Inl e | Inr text \<Rightarrow> read_note_name text)"

definition extract_note_tags :: "filesystem \<Rightarrow> path \<Rightarrow> error + string list" where
  "extract_note_tags fs note =
     (case open_read fs note of Inl e \<Rightarrow> Inl e | Inr text \<Rightarrow> read_note_tags text)"

section \<open>The index\<close>

text \<open>
  \<open>names\<close> and \<open>notes\<close> are dictionaries; \<open>tags\<close> is a \<open>defaultdict(set)\<close>, so reading
  \<open>self.tags[t]\<close> for a missing \<open>t\<close> stores the empty set under \<open>t\<close>. A note's entry is the
  dictionary \<open>dict(name=..., tags=...)\<close>; its tag list keeps order and repetitions.
\<close>

record note_entry =
  entry_name :: string
  entry_tags :: "string list"

record cache =
  names :: "string \<rightharpoonup> path"
  tags :: "string \<rightharpoonup> path set"
  "notes" :: "path \<rightharpoonup> note_entry"

definition empty_cache :: cache where
  "empty_cache = \<lparr>names = Map.empty, tags = Map.empty, notes = Map.empty\<rparr>"

definition get_note_path_for_note_name :: "config \<Rightarrow> string \<Rightarrow> path" where
  "get_note_path_for_note_name cfg note_name =
     (let note_file = Path (str_join ''_'' (str_split (str_lower note_name)) @ ''.'' @ note_file_ext cfg)
      in joinpath (expanduser cfg (Path (note_location cfg))) note_file)"

text \<open>
  \<open>self.tags[tag].remove(p)\<close>: \<open>set.remove\<close> raises \<open>KeyError\<close> when \<open>p\<close> is not in the set.
  The result is the exception, if any, and the dictionary as the statement leaves it.
\<close>

definition tag_remove :: "(string \<rightharpoonup> path set) \<Rightarrow> string \<Rightarrow> path \<Rightarrow> error option \<times> (string \<rightharpoonup> path set)" where
  "tag_remove T t p =
     (case T t of
        None \<Rightarrow> (Some KeyError, T(t \<mapsto> {}))
      | Some S \<Rightarrow> if p \<in> S then (None, T(t \<mapsto> S - {p})) else (Some KeyError, T))"

text \<open>The loop \<open>for tag in tags: self.tags[tag].remove(str(note))\<close> of \<open>uncache_note\<close>.\<close>

fun remove_tags :: "path \<Rightarrow> string list \<Rightarrow> (string \<rightharpoonup> path set) \<Rightarrow> error option \<times> (string \<rightharpoonup> path set)" where
  "remove_tags p [] T = (None, T)"
| "remove_tags p (t # ts) T =
     (case tag_remove T t p of
        (Some e, T') \<Rightarrow> (Some e, T')
      | (None, T') \<Rightarrow> remove_tags p ts T')"

text \<open>
  \<open>uncache_note\<close> returns nothing; the result is \<open>Inr ()\<close> or the exception, with the index
  as the call leaves it (the deletions made before an exception stay).
\<close>

definition uncache_note :: "cache \<Rightarrow> path \<Rightarrow> (error + unit) \<times> cache" where
  "uncache_note c note =
     (case notes c note of
        None \<Rightarrow> (Inr (), c)
      | Some e \<Rightarrow>
          (case names c (entry_name e) of
             None \<Rightarrow> (Inl KeyError, c)
           | Some _ \<Rightarrow>
               (let c1 = c\<lparr>names := (names c)(entry_name e := None)\<rparr> in
                case remove_tags note (entry_tags e) (tags c1) of
                  (Some x, T) \<Rightarrow> (Inl x, c1\<lparr>tags := T\<rparr>)
                | (None, T) \<Rightarrow> (Inr (), c1\<lparr>tags := T, notes := (notes c1)(note := None)\<rparr>))))"

text \<open>
  The two loops of \<open>cache_note\<close>: the path leaves the set of each previous tag that is
  not among the new ones, then enters the set of each new tag.
\<close>

fun remove_prev_tags :: "path \<Rightarrow> string list \<Rightarrow> string list \<Rightarrow> (string \<rightharpoonup> path set) \<Rightarrow> error option \<times> (string \<rightharpoonup> path set)" where
  "remove_prev_tags p tgs [] T = (None, T)"
| "remove_prev_tags p tgs (prev_tag # prev_tags) T =
     (if prev_tag \<notin> set tgs then
        (case tag_remove T prev_tag p of
           (Some e, T') \<Rightarrow> (Some e, T')
         | (None, T') \<Rightarrow> remove_prev_tags p tgs prev_tags T')
      else remove_prev_tags p tgs prev_tags T)"

fun add_tags :: "path \<Rightarrow> string list \<Rightarrow> (string \<rightharpoonup> path set) \<Rightarrow> (string \<rightharpoonup> path set)" where
  "add_tags p [] T = T"
| "add_tags p (t # ts) T =
     add_tags p ts (T(t \<mapsto> insert p (case T t of None \<Rightarrow> {} | Some S \<Rightarrow> S)))"

text \<open>
  \<open>cache_note\<close>: the result is the returned value (\<open>None\<close> or the new path) or the
  exception, with the file system and the index as the call leaves them.
\<close>

definition cache_note :: "config \<Rightarrow> filesystem \<Rightarrow> cache \<Rightarrow> path \<Rightarrow> (error + path option) \<times> filesystem \<times> cache" where
  "cache_note cfg fs c note =
     (if \<not> exists_path fs note then
        (case uncache_note c note of
           (Inl e, c') \<Rightarrow> (Inl e, fs, c')
         | (Inr _, c') \<Rightarrow> (Inr None, fs, c'))
      else
        (case extract_note_name fs note of
           Inl e \<Rightarrow> (Inl e, fs, c)
         | Inr note_name \<Rightarrow>
        (case extract_note_tags fs note of
           Inl e \<Rightarrow> (Inl e, fs, c)
         | Inr tgs \<Rightarrow>
        (let new_note = get_note_path_for_note_name cfg note_name in
         (case (if new_note \<noteq> note then
                  (case rename fs note new_note of
                     Inl e \<Rightarrow> (Inl e, fs, c)
                   | Inr fs1 \<Rightarrow> (case uncache_note c note of (r, c1) \<Rightarrow> (r, fs1, c1)))
                else (Inr (), fs, c)) of
            (Inl e, fs1, c1) \<Rightarrow> (Inl e, fs1, c1)
          | (Inr _, fs1, c1) \<Rightarrow>
              (let c2 = c1\<lparr>names := (names c1)(note_name \<mapsto> new_note)\<rparr>;
                   prev_tags = (case notes c2 new_note of None \<Rightarrow> [] | Some e \<Rightarrow> entry_tags e)
               in case remove_prev_tags new_note tgs prev_tags (tags c2) of
                    (Some x, T) \<Rightarrow> (Inl x, fs1, c2\<lparr>tags := T\<rparr>)
                  | (None, T) \<Rightarrow>
                      (Inr (Some new_note), fs1,
                       c2\<lparr>tags := add_tags new_note tgs T,
                          notes := (notes c2)(new_note \<mapsto> \<lparr>entry_name = note_name, entry_tags = tgs\<rparr>)\<rparr>)))))))"

text \<open>
  The indexes that a sequence of \<open>cache_note\<close> and \<open>uncache_note\<close> calls can produce from
  the empty one. The file system of each call is arbitrary (the user edits, moves and
  deletes files between the calls), and a call that raises leaves the index it had
  reached.
\<close>

inductive reachable :: "config \<Rightarrow> cache \<Rightarrow> bool" for cfg :: config where
  reachable_empty: "reachable cfg empty_cache"
| reachable_cache: "reachable cfg c \<Longrightarrow> cache_note cfg fs c note = (r, fs', c') \<Longrightarrow> reachable cfg c'"
| reachable_uncache: "reachable cfg c \<Longrightarrow> uncache_note c note = (u, c') \<Longrightarrow> reachable cfg c'"

section \<open>The format the specification describes\<close>

text \<open>
  The specification's wording of the two parsers, for comparison with the code: the
  first line must begin with the marker \<open>##\<close> and the name is the rest of it, stripped;
  the second line must begin with the marker \<open>#\<close> and each of its tokens is taken as it
  is, without one leading marker.
\<close>

definition spec_note_name :: "string \<Rightarrow> error + string" where
  "spec_note_name text =
     (let l = fst (readline text) in
      if str_startswith l ''##'' then Inr (str_strip (drop 2 l)) else Inl NoteFormatError)"

definition spec_note_tags :: "string \<Rightarrow> error + string list" where
  "spec_note_tags text =
     (let l = fst (readline (snd (readline text))) in
      if str_startswith l ''#''
      then Inr (map (\<lambda>t. if str_startswith t ''#'' then drop 1 t else t) (str_split l))
      else Inl NoteFormatError)"

section \<open>Concrete configurations and file systems\<close>

text \<open>
  \<open>flat_config\<close> keeps the notes in the working directory with the extension \<open>md\<close>;
  \<open>one_note p text\<close> is a file system with the single file \<open>p\<close>, where every rename is
  allowed.
\<close>

definition flat_config :: config where
  "flat_config = \<lparr>note_file_ext = ''md'', note_location = ''.'', expanduser = (\<lambda>p. p)\<rparr>"

definition one_note :: "path \<Rightarrow> string \<Rightarrow> filesystem" where
  "one_note p text = \<lparr>files = [p \<mapsto> text], others = {}, can_rename = (\<lambda>src dst. True)\<rparr>"

text \<open>
  \<open>no_files\<close> is the file system after the only note was deleted; \<open>refusing fs\<close> is \<open>fs\<close>
  on a system that refuses every rename; \<open>home_config\<close> keeps the notes in
  \<open>/home/u/notes\<close>.
\<close>

definition no_files :: filesystem where
  "no_files = \<lparr>files = Map.empty, others = {}, can_rename = (\<lambda>src dst. True)\<rparr>"

definition refusing :: "filesystem \<Rightarrow> filesystem" where
  "refusing fs = fs\<lparr>can_rename := (\<lambda>src dst. False)\<rparr>"

definition home_config :: config where
  "home_config = \<lparr>note_file_ext = ''md'', note_location = ''/home/u/notes'', expanduser = (\<lambda>p. p)\<rparr>"

text \<open>The note of the specification's scenario.\<close>

definition shopping_list :: string where
  "shopping_list = ''## Shopping List\<newline>#errands #home\<newline>Buy milk\<newline>''"

text \<open>
  \<open>one_entry\<close> is the index of the single note \<open>n.md\<close> with the name \<open>N\<close> and the tag
  \<open>t\<close>.
\<close>

definition one_entry :: cache where
  "one_entry = \<lparr>names = [''N'' \<mapsto> ''n.md''], tags = [''t'' \<mapsto> {''n.md''}],
     notes = [''n.md'' \<mapsto> \<lparr>entry_name = ''N'', entry_tags = [''t'']\<rparr>]\<rparr>"

section \<open>Facts about the string methods\<close>

lemma str_rstrip_keep:
  "\<not> isspace x \<Longrightarrow> str_rstrip (a @ x # b) = a @ x # str_rstrip b"
  by (simp add: str_rstrip_def dropWhile_append)

lemma hash_not_space: "\<not> isspace CHR ''#''"
  by (simp add: isspace_def)

lemma strip_marked_line: "str_strip (''##'' @ rest) = ''##'' @ str_rstrip rest"
  using str_rstrip_keep [of "CHR ''#''" "''#''" rest]
  by (simp add: str_strip_def str_lstrip_def hash_not_space)

lemma lstrip_chars_marked:
  "\<not> str_startswith rest ''#'' \<Longrightarrow> str_lstrip_chars ''##'' (''##'' @ rest) = rest"
  by (cases rest) (simp_all add: str_lstrip_chars_def str_startswith_def)

lemma extract_note_name_file:
  "files fs note = Some text \<Longrightarrow> extract_note_name fs note = read_note_name text"
  by (simp add: extract_note_name_def open_read_def)

lemma extract_note_tags_file:
  "files fs note = Some text \<Longrightarrow> extract_note_tags fs note = read_note_tags text"
  by (simp add: extract_note_tags_def open_read_def)

section \<open>Name extraction\<close>

text \<open>
  C3, as the claim states it, fails on the code. A first line with three marker characters
  loses all of them (\<open>lstrip('##')\<close> strips every leading \<open>#\<close>), where the claim keeps
  what follows the first two; and a first line that begins with blanks before the marker
  raises nothing, since the check looks at the stripped line (the marker then stays in the
  name).
\<close>

theorem extract_note_name_counterexample:
  "extract_note_name (one_note ''n.md'' ''###Foo\<newline>#t\<newline>'') ''n.md'' = Inr ''Foo''
   \<and> spec_note_name ''###Foo\<newline>#t\<newline>'' = Inr ''#Foo''
   \<and> extract_note_name (one_note ''n.md'' ''  ## Foo\<newline>#t\<newline>'') ''n.md'' = Inr ''## Foo''
   \<and> spec_note_name ''  ## Foo\<newline>#t\<newline>'' = Inl NoteFormatError"
  by (simp add: extract_note_name_def open_read_def one_note_def read_note_name_def
      spec_note_name_def str_startswith_def str_strip_def str_lstrip_def str_rstrip_def
      str_lstrip_chars_def isspace_def)

text \<open>
  C3, amended: for the text of an existing note file, name extraction raises a
  \<open>NoteFormatError\<close> exactly when the first line, with the surrounding whitespace stripped,
  does not begin with \<open>##\<close>, and it raises nothing else; when the first line itself begins
  with \<open>##\<close> and a third marker character does not follow, the name is the rest of the line
  after the two marker characters, with the surrounding whitespace stripped (so a name
  whose text begins with \<open>#\<close> after a blank keeps it).
\<close>

theorem extract_note_name_amended:
  assumes "files fs note = Some text"
  shows "(extract_note_name fs note = Inl NoteFormatError
            \<longleftrightarrow> \<not> str_startswith (str_strip (fst (readline text))) ''##'')
       \<and> (\<forall>e. extract_note_name fs note = Inl e \<longrightarrow> e = NoteFormatError)
       \<and> (\<forall>rest. fst (readline text) = ''##'' @ rest \<and> \<not> str_startswith rest ''#''
            \<longrightarrow> extract_note_name fs note = Inr (str_strip rest))"
proof -
  have name: "extract_note_name fs note = read_note_name text"
    using assms by (rule extract_note_name_file)
  have "read_note_name text = Inr (str_strip rest)"
    if "fst (readline text) = ''##'' @ rest" "\<not> str_startswith rest ''#''" for rest
  proof -
    have "str_startswith (str_strip (fst (readline text))) ''##''"
      unfolding that(1) strip_marked_line by (simp add: str_startswith_def)
    moreover have "str_lstrip_chars ''##'' (fst (readline text)) = rest"
      unfolding that(1) using that(2) by (rule lstrip_chars_marked)
    ultimately show ?thesis by (simp add: read_note_name_def)
  qed
  then show ?thesis
    unfolding name by (auto simp: read_note_name_def Let_def split: if_splits)
qed

theorem extract_note_name_amended_witness:
  "files (one_note ''n.md'' ''## #Bar Baz  \<newline>#t\<newline>'') ''n.md'' = Some ''## #Bar Baz  \<newline>#t\<newline>''
   \<and> fst (readline ''## #Bar Baz  \<newline>#t\<newline>'') = ''##'' @ '' #Bar Baz  \<newline>''
   \<and> \<not> str_startswith '' #Bar Baz  \<newline>'' ''#''
   \<and> extract_note_name (one_note ''n.md'' ''## #Bar Baz  \<newline>#t\<newline>'') ''n.md'' = Inr ''#Bar Baz''
   \<and> extract_note_name (one_note ''n.md'' ''no marker here\<newline>'') ''n.md'' = Inl NoteFormatError"
  using extract_note_name_amended [of "one_note ''n.md'' ''## #Bar Baz  \<newline>#t\<newline>''" "''n.md''" "''## #Bar Baz  \<newline>#t\<newline>''"]
    extract_note_name_amended [of "one_note ''n.md'' ''no marker here\<newline>''" "''n.md''" "''no marker here\<newline>''"]
  by (simp add: one_note_def str_startswith_def str_strip_def str_lstrip_def str_rstrip_def isspace_def)

section \<open>Tag extraction\<close>

lemma split_run_tokens:
  assumes "t \<in> set (split_run cur s)" and "\<forall>c\<in>set cur. \<not> isspace c"
  shows "t \<noteq> [] \<and> (\<forall>c\<in>set t. \<not> isspace c)"
  using assms
proof (induction s arbitrary: cur)
  case Nil
  then show ?case by (cases "cur = []") simp_all
next
  case (Cons c cs)
  consider (blank_first) "isspace c" "cur = []" | (blank_after) "isspace c" "cur \<noteq> []"
    | (letter) "\<not> isspace c" by blast
  then show ?case
  proof cases
    case blank_first
    with Cons.prems(1) have "t \<in> set (split_run [] cs)" by simp
    then show ?thesis by (rule Cons.IH) simp
  next
    case blank_after
    with Cons.prems(1) have "t = cur \<or> t \<in> set (split_run [] cs)" by simp
    then show ?thesis
    proof
      assume "t = cur"
      with blank_after(2) Cons.prems(2) show ?thesis by blast
    next
      assume "t \<in> set (split_run [] cs)"
      then show ?thesis by (rule Cons.IH) simp
    qed
  next
    case letter
    with Cons.prems(1) have "t \<in> set (split_run (cur @ [c]) cs)" by simp
    moreover from letter Cons.prems(2) have "\<forall>x\<in>set (cur @ [c]). \<not> isspace x" by auto
    ultimately show ?thesis by (rule Cons.IH)
  qed
qed

lemma str_split_tokens:
  "t \<in> set (str_split s) \<Longrightarrow> t \<noteq> [] \<and> (\<forall>c\<in>set t. \<not> isspace c)"
  unfolding str_split_def by (rule split_run_tokens [of t "[]"]) simp_all

lemma dropWhile_none: "\<forall>x\<in>set xs. \<not> P x \<Longrightarrow> dropWhile P xs = xs"
  by (cases xs) auto

lemma str_strip_no_space: "\<forall>c\<in>set t. \<not> isspace c \<Longrightarrow> str_strip t = t"
proof -
  assume a: "\<forall>c\<in>set t. \<not> isspace c"
  then have "dropWhile isspace t = t" by (rule dropWhile_none)
  moreover from a have "\<forall>c\<in>set (rev t). \<not> isspace c" by simp
  then have "dropWhile isspace (rev t) = rev t" by (rule dropWhile_none)
  ultimately show ?thesis by (simp add: str_strip_def str_lstrip_def str_rstrip_def)
qed

lemma drop_token_strip:
  "map (\<lambda>t. str_strip (drop 1 t)) (str_split l) = map (drop 1) (str_split l)"
proof (rule map_cong [OF refl])
  fix t assume "t \<in> set (str_split l)"
  then have "\<forall>c\<in>set t. \<not> isspace c" using str_split_tokens by blast
  then have "\<forall>c\<in>set (drop 1 t). \<not> isspace c" by (meson in_set_dropD)
  then show "str_strip (drop 1 t) = drop 1 t" by (rule str_strip_no_space)
qed

text \<open>
  C4, as the claim states it, fails on the code. A second line that begins with blanks
  before the marker raises nothing, since the check looks at the stripped line; and a
  token that does not begin with the marker is not taken as it is: \<open>t[1:]\<close> removes the
  first character of every token, so \<open>b\<close> gives the empty tag.
\<close>

theorem extract_note_tags_counterexample:
  "extract_note_tags (one_note ''n.md'' ''## N\<newline>  #a\<newline>'') ''n.md'' = Inr [''a'']
   \<and> spec_note_tags ''## N\<newline>  #a\<newline>'' = Inl NoteFormatError
   \<and> extract_note_tags (one_note ''n.md'' ''## N\<newline>#a b\<newline>'') ''n.md'' = Inr [''a'', []]
   \<and> spec_note_tags ''## N\<newline>#a b\<newline>'' = Inr [''a'', ''b'']"
  by (simp add: extract_note_tags_def open_read_def one_note_def read_note_tags_def
      spec_note_tags_def str_startswith_def str_strip_def str_lstrip_def str_rstrip_def
      str_split_def isspace_def)

text \<open>
  C4, amended: for the text of an existing note file whose first line passes the check of
  the code (stripped, it begins with \<open>##\<close>), tag extraction raises a \<open>NoteFormatError\<close>
  exactly when the second line, with the surrounding whitespace stripped, does not begin
  with \<open>#\<close>, and it raises nothing else; otherwise it returns one tag for each
  whitespace-separated token of the second line, in order and with repetitions, and the
  tag of a token that begins with the marker is the token without that one character.
\<close>

theorem extract_note_tags_amended:
  assumes "files fs note = Some text"
    and "readline text = (l1, rest)"
    and "str_startswith (str_strip l1) ''##''"
    and "fst (readline rest) = l2"
  shows "(extract_note_tags fs note = Inl NoteFormatError \<longleftrightarrow> \<not> str_startswith (str_strip l2) ''#'')
       \<and> (\<forall>e. extract_note_tags fs note = Inl e \<longrightarrow> e = NoteFormatError)
       \<and> (str_startswith (str_strip l2) ''#'' \<longrightarrow>
            (\<exists>ts. extract_note_tags fs note = Inr ts
               \<and> length ts = length (str_split l2)
               \<and> (\<forall>i<length ts. str_startswith (str_split l2 ! i) ''#''
                     \<longrightarrow> ''#'' @ ts ! i = str_split l2 ! i)))"
proof -
  have tags: "extract_note_tags fs note = read_note_tags text"
    using assms(1) by (rule extract_note_tags_file)
  have marker: "CHR ''#'' # drop (Suc 0) t = t" if "str_startswith t ''#''" for t
    using that by (cases t) (simp_all add: str_startswith_def)
  have "read_note_tags text =
      (if str_startswith (str_strip l2) ''#'' then Inr (map (drop 1) (str_split l2))
       else Inl NoteFormatError)"
    using assms(2-4) unfolding read_note_tags_def drop_token_strip by simp
  then show ?thesis
    unfolding tags by (auto simp: marker)
qed

theorem extract_note_tags_amended_witness:
  "files (one_note ''n.md'' ''## N\<newline>  #a #b #a\<newline>'') ''n.md'' = Some ''## N\<newline>  #a #b #a\<newline>''
   \<and> readline ''## N\<newline>  #a #b #a\<newline>'' = (''## N\<newline>'', ''  #a #b #a\<newline>'')
   \<and> str_startswith (str_strip ''## N\<newline>'') ''##''
   \<and> str_startswith (str_strip ''  #a #b #a\<newline>'') ''#''
   \<and> extract_note_tags (one_note ''n.md'' ''## N\<newline>  #a #b #a\<newline>'') ''n.md'' = Inr [''a'', ''b'', ''a'']
   \<and> extract_note_tags (one_note ''n.md'' ''## N\<newline>  #a #b #a\<newline>'') ''n.md'' \<noteq> Inl NoteFormatError"
proof -
  have a: "files (one_note ''n.md'' ''## N\<newline>  #a #b #a\<newline>'') ''n.md'' = Some ''## N\<newline>  #a #b #a\<newline>''"
    by (simp add: one_note_def)
  have b: "readline ''## N\<newline>  #a #b #a\<newline>'' = (''## N\<newline>'', ''  #a #b #a\<newline>'')"
    by simp
  have c: "str_startswith (str_strip ''## N\<newline>'') ''##''"
    by code_simp
  have d: "fst (readline ''  #a #b #a\<newline>'') = ''  #a #b #a\<newline>''"
    by simp
  have e: "str_startswith (str_strip ''  #a #b #a\<newline>'') ''#''"
    by code_simp
  have g: "extract_note_tags (one_note ''n.md'' ''## N\<newline>  #a #b #a\<newline>'') ''n.md'' = Inr [''a'', ''b'', ''a'']"
    by code_simp
  from extract_note_tags_amended [OF a b c d] e
  have "extract_note_tags (one_note ''n.md'' ''## N\<newline>  #a #b #a\<newline>'') ''n.md'' \<noteq> Inl NoteFormatError"
    by blast
  with a b c e g show ?thesis by blast
qed

section \<open>The two loops over the tag sets\<close>

lemma tag_remove_ok:
  "T t = Some S \<Longrightarrow> p \<in> S \<Longrightarrow> tag_remove T t p = (None, T(t \<mapsto> S - {p}))"
  by (simp add: tag_remove_def)

lemma tag_remove_None:
  "tag_remove T t p = (None, T') \<Longrightarrow> \<exists>S. T t = Some S \<and> p \<in> S \<and> T' = T(t \<mapsto> S - {p})"
  by (auto simp: tag_remove_def split: option.splits if_splits)

lemma remove_tags_ok:
  "distinct ts \<Longrightarrow> (\<And>t. t \<in> set ts \<Longrightarrow> \<exists>S. T t = Some S \<and> p \<in> S) \<Longrightarrow>
   remove_tags p ts T = (None, \<lambda>t. if t \<in> set ts then map_option (\<lambda>S. S - {p}) (T t) else T t)"
proof (induction ts arbitrary: T)
  case Nil
  then show ?case by simp
next
  case (Cons t ts)
  from Cons.prems(2) [of t] obtain S where S: "T t = Some S" "p \<in> S" by auto
  let ?T = "T(t \<mapsto> S - {p})"
  have step: "tag_remove T t p = (None, ?T)" using S by (rule tag_remove_ok)
  have "\<exists>S'. ?T u = Some S' \<and> p \<in> S'" if "u \<in> set ts" for u
  proof -
    from that Cons.prems(1) have "u \<noteq> t" by auto
    moreover from that Cons.prems(2) [of u] have "\<exists>S'. T u = Some S' \<and> p \<in> S'" by simp
    ultimately show ?thesis by simp
  qed
  with Cons.prems(1) have
    "remove_tags p ts ?T = (None, \<lambda>u. if u \<in> set ts then map_option (\<lambda>S. S - {p}) (?T u) else ?T u)"
    by (intro Cons.IH) simp_all
  moreover have "(\<lambda>u. if u \<in> set ts then map_option (\<lambda>S. S - {p}) (?T u) else ?T u)
      = (\<lambda>u. if u \<in> set (t # ts) then map_option (\<lambda>S. S - {p}) (T u) else T u)"
    using Cons.prems(1) S by (auto simp: fun_eq_iff)
  ultimately show ?case using step by simp
qed

lemma remove_tags_None:
  "remove_tags p ts T = (None, T') \<Longrightarrow>
   distinct ts \<and> (\<forall>t\<in>set ts. \<exists>S. T t = Some S \<and> p \<in> S)"
proof (induction ts arbitrary: T)
  case Nil
  then show ?case by simp
next
  case (Cons t ts)
  from Cons.prems obtain T1 where T1: "tag_remove T t p = (None, T1)" "remove_tags p ts T1 = (None, T')"
    by (auto split: prod.splits option.splits)
  from tag_remove_None [OF T1(1)] obtain S where S: "T t = Some S" "p \<in> S" "T1 = T(t \<mapsto> S - {p})"
    by blast
  from Cons.IH [OF T1(2)] have IH: "distinct ts" "\<forall>u\<in>set ts. \<exists>S'. T1 u = Some S' \<and> p \<in> S'"
    by blast+
  have "t \<notin> set ts"
  proof
    assume "t \<in> set ts"
    with IH(2) obtain S' where "T1 t = Some S'" "p \<in> S'" by blast
    with S(3) show False by auto
  qed
  moreover have "\<exists>S'. T u = Some S' \<and> p \<in> S'" if "u \<in> set ts" for u
  proof -
    from that IH(2) obtain S' where "T1 u = Some S'" "p \<in> S'" by blast
    moreover from that \<open>t \<notin> set ts\<close> have "u \<noteq> t" by auto
    ultimately show ?thesis using S(3) by simp
  qed
  ultimately show ?case using IH(1) S(1,2) by auto
qed

lemma remove_prev_tags_filter:
  "remove_prev_tags p tgs prev T = remove_tags p (filter (\<lambda>t. t \<notin> set tgs) prev) T"
  by (induction prev arbitrary: T) (simp_all split: prod.splits option.splits)

lemma remove_prev_tags_same:
  "set prev \<subseteq> set tgs \<Longrightarrow> remove_prev_tags p tgs prev T = (None, T)"
  by (induction prev arbitrary: T) simp_all

lemma add_tags_eq:
  "add_tags p ts T
     = (\<lambda>t. if t \<in> set ts then Some (insert p (case T t of None \<Rightarrow> {} | Some S \<Rightarrow> S)) else T t)"
proof (induction ts arbitrary: T)
  case Nil
  show ?case by simp
next
  case (Cons t ts)
  show ?case unfolding add_tags.simps Cons.IH by (auto simp: fun_eq_iff)
qed

lemma add_tags_member:
  "t \<in> set ts \<Longrightarrow> \<exists>S. add_tags p ts T t = Some S \<and> p \<in> S"
  by (simp add: add_tags_eq)

lemma add_tags_same:
  assumes "\<And>t. t \<in> set ts \<Longrightarrow> \<exists>S. T t = Some S \<and> p \<in> S"
  shows "add_tags p ts T = T"
proof
  fix t
  show "add_tags p ts T t = T t"
  proof (cases "t \<in> set ts")
    case True
    with assms obtain S where "T t = Some S" "p \<in> S" by blast
    with True show ?thesis by (simp add: add_tags_eq insert_absorb)
  next
    case False
    then show ?thesis by (simp add: add_tags_eq)
  qed
qed

section \<open>Removing a note from the index\<close>

lemma uncache_note_absent:
  "notes c p = None \<Longrightarrow> uncache_note c p = (Inr (), c)"
  by (simp add: uncache_note_def)

lemma uncache_note_no_name:
  "notes c p = Some e \<Longrightarrow> names c (entry_name e) = None \<Longrightarrow> uncache_note c p = (Inl KeyError, c)"
  by (simp add: uncache_note_def)

lemma uncache_note_ok:
  assumes "notes c p = Some e" and "names c (entry_name e) \<noteq> None" and "distinct (entry_tags e)"
    and "\<And>t. t \<in> set (entry_tags e) \<Longrightarrow> \<exists>S. tags c t = Some S \<and> p \<in> S"
  shows "uncache_note c p =
    (Inr (), c\<lparr>names := (names c)(entry_name e := None),
               tags := (\<lambda>t. if t \<in> set (entry_tags e) then map_option (\<lambda>S. S - {p}) (tags c t) else tags c t),
               notes := (notes c)(p := None)\<rparr>)"
proof -
  have "remove_tags p (entry_tags e) (tags c) =
      (None, \<lambda>t. if t \<in> set (entry_tags e) then map_option (\<lambda>S. S - {p}) (tags c t) else tags c t)"
    using assms(3,4) by (rule remove_tags_ok)
  with assms(1,2) show ?thesis by (auto simp: uncache_note_def)
qed

lemma uncache_note_returned:
  assumes "uncache_note c p = (Inr u, c')"
  shows "(notes c p = None \<and> c' = c)
       \<or> (\<exists>e. notes c p = Some e \<and> names c (entry_name e) \<noteq> None \<and> distinct (entry_tags e)
              \<and> (\<forall>t\<in>set (entry_tags e). \<exists>S. tags c t = Some S \<and> p \<in> S)
              \<and> c' = c\<lparr>names := (names c)(entry_name e := None),
                        tags := (\<lambda>t. if t \<in> set (entry_tags e) then map_option (\<lambda>S. S - {p}) (tags c t) else tags c t),
                        notes := (notes c)(p := None)\<rparr>)"
proof (cases "notes c p")
  case None
  with assms show ?thesis by (simp add: uncache_note_def)
next
  case (Some e)
  from assms Some obtain T' where nm: "names c (entry_name e) \<noteq> None"
    and rt: "remove_tags p (entry_tags e) (tags c) = (None, T')"
    by (auto simp: uncache_note_def Let_def split: option.splits prod.splits)
  from remove_tags_None [OF rt] have ok: "distinct (entry_tags e)"
    "\<forall>t\<in>set (entry_tags e). \<exists>S. tags c t = Some S \<and> p \<in> S" by blast+
  then have "uncache_note c p =
    (Inr (), c\<lparr>names := (names c)(entry_name e := None),
               tags := (\<lambda>t. if t \<in> set (entry_tags e) then map_option (\<lambda>S. S - {p}) (tags c t) else tags c t),
               notes := (notes c)(p := None)\<rparr>)"
    using Some nm by (intro uncache_note_ok) auto
  with assms Some nm ok show ?thesis by auto
qed

lemma uncache_note_names:
  assumes "uncache_note c p = (r, c')" and "names c' n = Some q"
  shows "names c n = Some q"
  using assms
  by (auto simp: uncache_note_def Let_def split: option.splits prod.splits if_splits)

lemma uncache_note_notes:
  assumes "uncache_note c p = (r, c')" and "notes c' q = Some e"
  shows "notes c q = Some e"
  using assms
  by (auto simp: uncache_note_def Let_def split: option.splits prod.splits if_splits)

lemma tag_remove_error: "tag_remove T t p = (Some x, T') \<Longrightarrow> x = KeyError"
  by (auto simp: tag_remove_def split: option.splits if_splits)

lemma remove_tags_error: "remove_tags p ts T = (Some x, T') \<Longrightarrow> x = KeyError"
proof (induction ts arbitrary: T)
  case Nil
  then show ?case by simp
next
  case (Cons t ts)
  show ?case
  proof (cases "tag_remove T t p")
    case (Pair r T1)
    show ?thesis
    proof (cases r)
      case None
      with Pair Cons.prems have "remove_tags p ts T1 = (Some x, T')" by simp
      then show ?thesis by (rule Cons.IH)
    next
      case (Some y)
      with Pair Cons.prems have "y = x" by simp
      with Pair Some show ?thesis using tag_remove_error by blast
    qed
  qed
qed

lemma uncache_note_error: "uncache_note c p = (Inl x, c') \<Longrightarrow> x = KeyError"
  by (auto simp: uncache_note_def Let_def split: option.splits prod.splits dest: remove_tags_error)

text \<open>
  C2, as the claim states it, fails on the code: \<open>uncache_note\<close> has no guard. With the
  names entry missing, \<open>del self.names[note_name]\<close> raises \<open>KeyError\<close>; with the path missing
  from the set of one of the entry's tags, \<open>set.remove\<close> raises \<open>KeyError\<close>. And a removal
  that returns can leave a names entry that points to the path: after the name in the
  file \<open>n.md\<close> changed from \<open>n\<close> to \<open>N\<close> (both with the canonical path \<open>n.md\<close>), the old
  name stays in \<open>names\<close> and survives the removal.
\<close>

theorem uncache_note_counterexample:
  "fst (uncache_note (one_entry\<lparr>names := Map.empty\<rparr>) ''n.md'') = Inl KeyError
   \<and> fst (uncache_note (one_entry\<lparr>tags := [''t'' \<mapsto> {}]\<rparr>) ''n.md'') = Inl KeyError
   \<and> fst (uncache_note
         (snd (snd (cache_note flat_config (one_note ''n.md'' ''## N\<newline>#t\<newline>'')
            (snd (snd (cache_note flat_config (one_note ''n.md'' ''## n\<newline>#t\<newline>'') empty_cache ''n.md'')))
            ''n.md''))) ''n.md'') = Inr ()
   \<and> names (snd (uncache_note
         (snd (snd (cache_note flat_config (one_note ''n.md'' ''## N\<newline>#t\<newline>'')
            (snd (snd (cache_note flat_config (one_note ''n.md'' ''## n\<newline>#t\<newline>'') empty_cache ''n.md'')))
            ''n.md''))) ''n.md'')) ''n'' = Some ''n.md''"
  by code_simp

text \<open>
  C2, amended: \<open>uncache_note\<close> changes nothing and returns when the path is not indexed.
  When the path is indexed, its entry's name is a key of \<open>names\<close>, the entry's tag list has
  no repetition and the set of each of these tags holds the path, the call returns; then
  the path is no key of \<open>notes\<close>, the entry's name is no key of \<open>names\<close>, no set of the
  entry's tags holds the path, a second call changes nothing, and nothing in \<open>names\<close> or
  \<open>tags\<close> mentions the path if before the call only the entry's name and the entry's tags
  did. The call raises \<open>KeyError\<close> and leaves the index as it was when the entry's name is
  missing from \<open>names\<close>, and it raises \<open>KeyError\<close> when the set of one of the entry's tags
  does not hold the path.
\<close>

theorem uncache_note_amended:
  "(notes c p = None \<longrightarrow> uncache_note c p = (Inr (), c))
   \<and> (notes c p = Some e \<and> names c (entry_name e) \<noteq> None \<and> distinct (entry_tags e)
        \<and> (\<forall>t\<in>set (entry_tags e). \<exists>S. tags c t = Some S \<and> p \<in> S)
      \<longrightarrow> (\<exists>c'. uncache_note c p = (Inr (), c') \<and> uncache_note c' p = (Inr (), c')
             \<and> notes c' p = None \<and> names c' (entry_name e) = None
             \<and> (\<forall>t\<in>set (entry_tags e). \<exists>S. tags c' t = Some S \<and> p \<notin> S)
             \<and> ((\<forall>n. names c n = Some p \<longrightarrow> n = entry_name e) \<longrightarrow> (\<forall>n. names c' n \<noteq> Some p))
             \<and> ((\<forall>t S. tags c t = Some S \<and> p \<in> S \<longrightarrow> t \<in> set (entry_tags e))
                  \<longrightarrow> (\<forall>t S. tags c' t = Some S \<longrightarrow> p \<notin> S))))
   \<and> (notes c p = Some e \<and> names c (entry_name e) = None \<longrightarrow> uncache_note c p = (Inl KeyError, c))
   \<and> (notes c p = Some e \<and> (\<exists>t\<in>set (entry_tags e). \<forall>S. tags c t = Some S \<longrightarrow> p \<notin> S)
        \<longrightarrow> fst (uncache_note c p) = Inl KeyError)"
proof (intro conjI impI)
  assume "notes c p = None"
  then show "uncache_note c p = (Inr (), c)" by (rule uncache_note_absent)
next
  assume a: "notes c p = Some e \<and> names c (entry_name e) \<noteq> None \<and> distinct (entry_tags e)
        \<and> (\<forall>t\<in>set (entry_tags e). \<exists>S. tags c t = Some S \<and> p \<in> S)"
  let ?c' = "c\<lparr>names := (names c)(entry_name e := None),
               tags := (\<lambda>t. if t \<in> set (entry_tags e) then map_option (\<lambda>S. S - {p}) (tags c t) else tags c t),
               notes := (notes c)(p := None)\<rparr>"
  from a have ok: "uncache_note c p = (Inr (), ?c')" by (intro uncache_note_ok) auto
  have again: "uncache_note ?c' p = (Inr (), ?c')" by (rule uncache_note_absent) simp
  have t1: "\<forall>t\<in>set (entry_tags e). \<exists>S. tags ?c' t = Some S \<and> p \<notin> S"
    using a by auto
  have n1: "(\<forall>n. names c n = Some p \<longrightarrow> n = entry_name e) \<longrightarrow> (\<forall>n. names ?c' n \<noteq> Some p)"
    by auto
  have t2: "(\<forall>t S. tags c t = Some S \<and> p \<in> S \<longrightarrow> t \<in> set (entry_tags e))
                  \<longrightarrow> (\<forall>t S. tags ?c' t = Some S \<longrightarrow> p \<notin> S)"
    by auto
  have "notes ?c' p = None" "names ?c' (entry_name e) = None" by simp_all
  with ok again t1 n1 t2
  show "\<exists>c'. uncache_note c p = (Inr (), c') \<and> uncache_note c' p = (Inr (), c')
             \<and> notes c' p = None \<and> names c' (entry_name e) = None
             \<and> (\<forall>t\<in>set (entry_tags e). \<exists>S. tags c' t = Some S \<and> p \<notin> S)
             \<and> ((\<forall>n. names c n = Some p \<longrightarrow> n = entry_name e) \<longrightarrow> (\<forall>n. names c' n \<noteq> Some p))
             \<and> ((\<forall>t S. tags c t = Some S \<and> p \<in> S \<longrightarrow> t \<in> set (entry_tags e))
                  \<longrightarrow> (\<forall>t S. tags c' t = Some S \<longrightarrow> p \<notin> S))"
    by (intro exI [of _ ?c'] conjI)
next
  assume "notes c p = Some e \<and> names c (entry_name e) = None"
  then show "uncache_note c p = (Inl KeyError, c)" by (intro uncache_note_no_name) auto
next
  assume a: "notes c p = Some e \<and> (\<exists>t\<in>set (entry_tags e). \<forall>S. tags c t = Some S \<longrightarrow> p \<notin> S)"
  obtain r c' where rc: "uncache_note c p = (r, c')" by (cases "uncache_note c p")
  show "fst (uncache_note c p) = Inl KeyError"
  proof (cases r)
    case (Inl x)
    with rc have "x = KeyError" by (intro uncache_note_error [of c p x c']) simp
    with rc Inl show ?thesis by simp
  next
    case (Inr u)
    with rc have "uncache_note c p = (Inr u, c')" by simp
    from uncache_note_returned [OF this] a show ?thesis by auto
  qed
qed


theorem uncache_note_amended_witness:
  "notes empty_cache ''n.md'' = None
   \<and> uncache_note empty_cache ''n.md'' = (Inr (), empty_cache)
   \<and> notes one_entry ''n.md'' = Some \<lparr>entry_name = ''N'', entry_tags = [''t'']\<rparr>
   \<and> names one_entry ''N'' = Some ''n.md''
   \<and> tags one_entry ''t'' = Some {''n.md''}
   \<and> fst (uncache_note one_entry ''n.md'') = Inr ()
   \<and> notes (snd (uncache_note one_entry ''n.md'')) ''n.md'' = None
   \<and> names (snd (uncache_note one_entry ''n.md'')) ''N'' = None
   \<and> tags (snd (uncache_note one_entry ''n.md'')) ''t'' = Some {}
   \<and> uncache_note (one_entry\<lparr>names := Map.empty\<rparr>) ''n.md'' = (Inl KeyError, one_entry\<lparr>names := Map.empty\<rparr>)"
proof -
  let ?e = "\<lparr>entry_name = ''N'', entry_tags = [''t'']\<rparr>"
  have h0: "notes empty_cache ''n.md'' = None" by (simp add: empty_cache_def)
  with uncache_note_amended [of empty_cache "''n.md''" ?e]
  have w0: "uncache_note empty_cache ''n.md'' = (Inr (), empty_cache)" by blast
  have h1: "notes one_entry ''n.md'' = Some ?e" "names one_entry ''N'' = Some ''n.md''"
    "tags one_entry ''t'' = Some {''n.md''}"
    by (simp_all add: one_entry_def)
  then have "notes one_entry ''n.md'' = Some ?e \<and> names one_entry (entry_name ?e) \<noteq> None
      \<and> distinct (entry_tags ?e)
      \<and> (\<forall>t\<in>set (entry_tags ?e). \<exists>S. tags one_entry t = Some S \<and> ''n.md'' \<in> S)"
    by simp
  with uncache_note_amended [of one_entry "''n.md''" ?e]
  obtain c' where c': "uncache_note one_entry ''n.md'' = (Inr (), c')" "notes c' ''n.md'' = None"
    "names c' (entry_name ?e) = None"
    by blast
  then have w1: "fst (uncache_note one_entry ''n.md'') = Inr ()"
    "notes (snd (uncache_note one_entry ''n.md'')) ''n.md'' = None"
    "names (snd (uncache_note one_entry ''n.md'')) ''N'' = None"
    by simp_all
  have w2: "tags (snd (uncache_note one_entry ''n.md'')) ''t'' = Some {}"
    by code_simp
  have "notes (one_entry\<lparr>names := Map.empty\<rparr>) ''n.md'' = Some ?e
      \<and> names (one_entry\<lparr>names := Map.empty\<rparr>) (entry_name ?e) = None"
    by (simp add: one_entry_def)
  with uncache_note_amended [of "one_entry\<lparr>names := Map.empty\<rparr>" "''n.md''" ?e]
  have w3: "uncache_note (one_entry\<lparr>names := Map.empty\<rparr>) ''n.md''
      = (Inl KeyError, one_entry\<lparr>names := Map.empty\<rparr>)"
    by blast
  from h0 w0 h1 w1 w2 w3 show ?thesis by blast
qed

section \<open>Indexing a note\<close>

lemma exists_path_file: "files fs note = Some text \<Longrightarrow> exists_path fs note"
  by (auto simp: exists_path_def)

lemma rename_file:
  "files fs note = Some text \<Longrightarrow> rename fs note p = Inr fs1 \<Longrightarrow>
   files fs1 = (files fs)(note := None, p \<mapsto> text)"
  by (auto simp: rename_def split: if_splits)

lemma cache_note_missing:
  "\<not> exists_path fs note \<Longrightarrow>
   cache_note cfg fs c note =
     (case uncache_note c note of
        (Inl e, c') \<Rightarrow> (Inl e, fs, c')
      | (Inr u, c') \<Rightarrow> (Inr None, fs, c'))"
  by (simp add: cache_note_def)

lemma cache_note_returned:
  assumes "cache_note cfg fs c note = (Inr (Some p), fs1, c1)"
  obtains content N T cx Tm where
    "files fs note = Some content" "read_note_name content = Inr N" "read_note_tags content = Inr T"
    "p = get_note_path_for_note_name cfg N"
    "p \<noteq> note \<Longrightarrow> rename fs note p = Inr fs1 \<and> (\<exists>u. uncache_note c note = (Inr u, cx))"
    "p = note \<Longrightarrow> fs1 = fs \<and> cx = c"
    "remove_prev_tags p T (case notes cx p of None \<Rightarrow> [] | Some e \<Rightarrow> entry_tags e) (tags cx) = (None, Tm)"
    "c1 = cx\<lparr>names := (names cx)(N \<mapsto> p), tags := add_tags p T Tm,
              notes := (notes cx)(p \<mapsto> \<lparr>entry_name = N, entry_tags = T\<rparr>)\<rparr>"
proof -
  have ex: "exists_path fs note"
  proof (rule ccontr)
    assume "\<not> exists_path fs note"
    from cache_note_missing [OF this, of cfg c] assms show False
      by (auto split: prod.splits sum.splits)
  qed
  from assms ex obtain N where N: "extract_note_name fs note = Inr N"
    by (cases "extract_note_name fs note") (auto simp: cache_note_def)
  from assms ex N obtain T where T: "extract_note_tags fs note = Inr T"
    by (cases "extract_note_tags fs note") (auto simp: cache_note_def)
  from N obtain content where content: "files fs note = Some content"
    by (cases "files fs note") (auto simp: extract_note_name_def open_read_def)
  from N T content have rd: "read_note_name content = Inr N" "read_note_tags content = Inr T"
    by (simp_all add: extract_note_name_file extract_note_tags_file)
  let ?p = "get_note_path_for_note_name cfg N"
  let ?mv = "if ?p \<noteq> note then
                  (case rename fs note ?p of
                     Inl e \<Rightarrow> (Inl e, fs, c)
                   | Inr fs1 \<Rightarrow> (case uncache_note c note of (r, c1) \<Rightarrow> (r, fs1, c1)))
                else (Inr (), fs, c)"
  obtain r fx cx where mv: "?mv = (r, fx, cx)" by (cases ?mv)
  obtain er Tm where rm: "remove_prev_tags ?p T (case notes cx ?p of None \<Rightarrow> [] | Some e \<Rightarrow> entry_tags e) (tags cx) = (er, Tm)"
    by (cases "remove_prev_tags ?p T (case notes cx ?p of None \<Rightarrow> [] | Some e \<Rightarrow> entry_tags e) (tags cx)")
  from assms ex N T mv rm have res: "\<exists>u. r = Inr u" "er = None" "p = ?p" "fs1 = fx"
    "c1 = cx\<lparr>names := (names cx)(N \<mapsto> ?p), tags := add_tags ?p T Tm,
              notes := (notes cx)(?p \<mapsto> \<lparr>entry_name = N, entry_tags = T\<rparr>)\<rparr>"
    unfolding cache_note_def
    by (auto simp: Let_def split: sum.splits option.splits)
  from mv res(1) have mv1: "?p \<noteq> note \<Longrightarrow> rename fs note ?p = Inr fx \<and> (\<exists>u. uncache_note c note = (Inr u, cx))"
    by (auto split: sum.splits prod.splits)
  from mv have mv2: "?p = note \<Longrightarrow> fx = fs \<and> cx = c"
    by simp
  show ?thesis
    using that [of content N T cx Tm] content rd res mv1 mv2 rm by simp
qed

lemma cache_note_existing_returns:
  assumes "exists_path fs note" and "cache_note cfg fs c note = (Inr r, fs1, c1)"
  shows "\<exists>p. r = Some p"
  using assms unfolding cache_note_def
  by (auto simp: Let_def split: sum.splits option.splits prod.splits if_splits)

text \<open>
  C1: for the text of a note file from which the parsers read the name \<open>N\<close> and the tags
  \<open>T\<close>, a \<open>cache_note\<close> call that returns gives back the canonical path of \<open>N\<close>, and then
  \<open>names[N]\<close> is that path and \<open>tags[t]\<close> contains it for every \<open>t\<close> in \<open>T\<close>. The witness is
  the scenario of the specification: the shopping list at \<open>tmp.md\<close>, indexed into the
  empty index, ends at \<open>shopping_list.md\<close>.
\<close>

theorem cache_note_round_trip:
  assumes "files fs note = Some content"
    and "read_note_name content = Inr N"
    and "read_note_tags content = Inr T"
    and "cache_note cfg fs c note = (Inr r, fs1, c1)"
  shows "r = Some (get_note_path_for_note_name cfg N)
       \<and> names c1 N = Some (get_note_path_for_note_name cfg N)
       \<and> (\<forall>t\<in>set T. \<exists>S. tags c1 t = Some S \<and> get_note_path_for_note_name cfg N \<in> S)"
proof -
  from assms(1) have "exists_path fs note" by (rule exists_path_file)
  from cache_note_existing_returns [OF this assms(4)] obtain p where p: "r = Some p" by blast
  from assms(4) have "cache_note cfg fs c note = (Inr (Some p), fs1, c1)" unfolding p .
  then show ?thesis
  proof (rule cache_note_returned)
    fix content' N' T' cx Tm
    assume a: "files fs note = Some content'" "read_note_name content' = Inr N'"
      "read_note_tags content' = Inr T'" "p = get_note_path_for_note_name cfg N'"
      "c1 = cx\<lparr>names := (names cx)(N' \<mapsto> p), tags := add_tags p T' Tm,
              notes := (notes cx)(p \<mapsto> \<lparr>entry_name = N', entry_tags = T'\<rparr>)\<rparr>"
    from a(1-3) assms(1-3) have same: "N' = N" "T' = T" by simp_all
    have "\<exists>S. tags c1 t = Some S \<and> p \<in> S" if "t \<in> set T" for t
      using add_tags_member [OF that, of p Tm] a(5) same by simp
    with a(4,5) same p show ?thesis by simp
  qed
qed


theorem cache_note_round_trip_witness:
  "files (one_note ''tmp.md'' shopping_list) ''tmp.md'' = Some shopping_list
   \<and> read_note_name shopping_list = Inr ''Shopping List''
   \<and> read_note_tags shopping_list = Inr [''errands'', ''home'']
   \<and> fst (cache_note flat_config (one_note ''tmp.md'' shopping_list) empty_cache ''tmp.md'')
       = Inr (Some ''shopping_list.md'')
   \<and> names (snd (snd (cache_note flat_config (one_note ''tmp.md'' shopping_list) empty_cache ''tmp.md'')))
         ''Shopping List'' = Some ''shopping_list.md''
   \<and> tags (snd (snd (cache_note flat_config (one_note ''tmp.md'' shopping_list) empty_cache ''tmp.md'')))
         ''errands'' = Some {''shopping_list.md''}
   \<and> tags (snd (snd (cache_note flat_config (one_note ''tmp.md'' shopping_list) empty_cache ''tmp.md'')))
         ''home'' = Some {''shopping_list.md''}"
proof -
  let ?X = "cache_note flat_config (one_note ''tmp.md'' shopping_list) empty_cache ''tmp.md''"
  have a: "files (one_note ''tmp.md'' shopping_list) ''tmp.md'' = Some shopping_list"
    by (simp add: one_note_def)
  have b: "read_note_name shopping_list = Inr ''Shopping List''"
    by code_simp
  have c: "read_note_tags shopping_list = Inr [''errands'', ''home'']"
    by code_simp
  have d: "fst ?X = Inr (Some ''shopping_list.md'')"
    by code_simp
  have e: "get_note_path_for_note_name flat_config ''Shopping List'' = ''shopping_list.md''"
    by code_simp
  have f: "tags (snd (snd ?X)) ''errands'' = Some {''shopping_list.md''}"
    "tags (snd (snd ?X)) ''home'' = Some {''shopping_list.md''}"
    by code_simp+
  have "?X = (Inr (Some ''shopping_list.md''), fst (snd ?X), snd (snd ?X))"
    by (rule prod_eqI) (simp_all add: d)
  from cache_note_round_trip [OF a b c this]
  have "names (snd (snd ?X)) ''Shopping List'' = Some ''shopping_list.md''"
    unfolding e by blast
  with a b c d f show ?thesis by blast
qed

text \<open>
  C5: when the text of an existing note file is malformed, that is, when the first line
  fails the check for \<open>##\<close> or the second line fails the check for \<open>#\<close> (both on the
  stripped line, as the parsers check), \<open>cache_note\<close> raises \<open>NoteFormatError\<close> and the index
  and the file system are the ones it was called with. The witness is the scenario of the
  specification: \<open>no marker here\<close> indexed into the empty index.
\<close>

theorem cache_note_format_error:
  assumes "files fs note = Some content"
    and "\<not> str_startswith (str_strip (fst (readline content))) ''##''
       \<or> \<not> str_startswith (str_strip (fst (readline (snd (readline content))))) ''#''"
  shows "cache_note cfg fs c note = (Inl NoteFormatError, fs, c)"
proof -
  from assms(1) have ex: "exists_path fs note" by (rule exists_path_file)
  have nm: "extract_note_name fs note = read_note_name content"
    and tg: "extract_note_tags fs note = read_note_tags content"
    using assms(1) by (rule extract_note_name_file, rule extract_note_tags_file)
  show ?thesis
  proof (cases "str_startswith (str_strip (fst (readline content))) ''##''")
    case False
    then have "read_note_name content = Inl NoteFormatError" by (simp add: read_note_name_def)
    with ex nm show ?thesis by (simp add: cache_note_def)
  next
    case True
    then obtain N where N: "read_note_name content = Inr N" by (simp add: read_note_name_def)
    from True assms(2) have "read_note_tags content = Inl NoteFormatError"
      by (cases "readline content") (simp add: read_note_tags_def)
    with ex nm tg N show ?thesis by (simp add: cache_note_def)
  qed
qed

theorem cache_note_format_error_witness:
  "files (one_note ''tmp.md'' ''no marker here\<newline>'') ''tmp.md'' = Some ''no marker here\<newline>''
   \<and> \<not> str_startswith (str_strip (fst (readline ''no marker here\<newline>''))) ''##''
   \<and> cache_note flat_config (one_note ''tmp.md'' ''no marker here\<newline>'') empty_cache ''tmp.md''
       = (Inl NoteFormatError, one_note ''tmp.md'' ''no marker here\<newline>'', empty_cache)"
proof -
  have a: "files (one_note ''tmp.md'' ''no marker here\<newline>'') ''tmp.md'' = Some ''no marker here\<newline>''"
    by (simp add: one_note_def)
  have b: "\<not> str_startswith (str_strip (fst (readline ''no marker here\<newline>''))) ''##''"
    by code_simp
  from b have "\<not> str_startswith (str_strip (fst (readline ''no marker here\<newline>''))) ''##''
       \<or> \<not> str_startswith (str_strip (fst (readline (snd (readline ''no marker here\<newline>''))))) ''#''"
    by (rule disjI1)
  from cache_note_format_error [OF a this] a b show ?thesis by blast
qed

text \<open>
  C9: when a \<open>cache_note\<close> call has returned a path, the note is indexed at its canonical
  path; calling \<open>cache_note\<close> on that path again, with the file unchanged, returns the same
  path and leaves the file system and the three mappings as they were after the first
  call.
\<close>

theorem cache_note_idempotent:
  assumes "cache_note cfg fs c note = (Inr (Some p), fs1, c1)"
  shows "cache_note cfg fs1 c1 p = (Inr (Some p), fs1, c1)"
  using assms
proof (rule cache_note_returned)
  fix content N T cx Tm
  assume fl: "files fs note = Some content"
    and rd: "read_note_name content = Inr N" "read_note_tags content = Inr T"
    and p: "p = get_note_path_for_note_name cfg N"
    and moved: "p \<noteq> note \<Longrightarrow> rename fs note p = Inr fs1 \<and> (\<exists>u. uncache_note c note = (Inr u, cx))"
    and same: "p = note \<Longrightarrow> fs1 = fs \<and> cx = c"
    and c1: "c1 = cx\<lparr>names := (names cx)(N \<mapsto> p), tags := add_tags p T Tm,
              notes := (notes cx)(p \<mapsto> \<lparr>entry_name = N, entry_tags = T\<rparr>)\<rparr>"
  have file1: "files fs1 p = Some content"
  proof (cases "p = note")
    case True
    with same fl show ?thesis by simp
  next
    case False
    with moved have "rename fs note p = Inr fs1" by simp
    from rename_file [OF fl this] show ?thesis by simp
  qed
  then have ex: "exists_path fs1 p" by (rule exists_path_file)
  have nm: "extract_note_name fs1 p = Inr N" and tg: "extract_note_tags fs1 p = Inr T"
    using file1 rd by (simp_all add: extract_note_name_file extract_note_tags_file)
  have names1: "(names c1)(N \<mapsto> p) = names c1"
    unfolding c1 by simp
  have notes1: "notes c1 p = Some \<lparr>entry_name = N, entry_tags = T\<rparr>"
    unfolding c1 by simp
  have notes2: "(notes c1)(p \<mapsto> \<lparr>entry_name = N, entry_tags = T\<rparr>) = notes c1"
    unfolding c1 by simp
  have prev: "remove_prev_tags p T T (tags c1) = (None, tags c1)"
    by (rule remove_prev_tags_same) simp
  have "\<exists>S. tags c1 t = Some S \<and> p \<in> S" if "t \<in> set T" for t
    using add_tags_member [OF that, of p Tm] unfolding c1 by simp
  then have add: "add_tags p T (tags c1) = tags c1" by (rule add_tags_same)
  show ?thesis
    unfolding cache_note_def
    by (simp add: ex nm tg p [symmetric] Let_def names1 notes1 notes2 prev add)
qed


theorem cache_note_idempotent_witness:
  "fst (cache_note flat_config (one_note ''shopping_list.md'' shopping_list) empty_cache ''shopping_list.md'')
     = Inr (Some ''shopping_list.md'')
   \<and> cache_note flat_config
        (fst (snd (cache_note flat_config (one_note ''shopping_list.md'' shopping_list) empty_cache ''shopping_list.md'')))
        (snd (snd (cache_note flat_config (one_note ''shopping_list.md'' shopping_list) empty_cache ''shopping_list.md'')))
        ''shopping_list.md''
     = (Inr (Some ''shopping_list.md''),
        fst (snd (cache_note flat_config (one_note ''shopping_list.md'' shopping_list) empty_cache ''shopping_list.md'')),
        snd (snd (cache_note flat_config (one_note ''shopping_list.md'' shopping_list) empty_cache ''shopping_list.md'')))"
proof -
  let ?X = "cache_note flat_config (one_note ''shopping_list.md'' shopping_list) empty_cache ''shopping_list.md''"
  have d: "fst ?X = Inr (Some ''shopping_list.md'')"
    by code_simp
  have "?X = (Inr (Some ''shopping_list.md''), fst (snd ?X), snd (snd ?X))"
    by (rule prod_eqI) (simp_all add: d)
  from cache_note_idempotent [OF this] d show ?thesis by blast
qed

section \<open>The values of the names mapping\<close>

lemma cache_note_names:
  assumes "cache_note cfg fs c note = (r, fs1, c1)" and "names c1 n = Some q"
  shows "names c n = Some q \<or> q = get_note_path_for_note_name cfg n"
proof (cases "exists_path fs note")
  case False
  from cache_note_missing [OF this, of cfg c] assms(1)
  obtain u where "uncache_note c note = (u, c1)"
    by (auto split: prod.splits sum.splits)
  from uncache_note_names [OF this assms(2)] show ?thesis ..
next
  case True
  show ?thesis
  proof (cases "extract_note_name fs note")
    case (Inl e)
    with True assms show ?thesis by (simp add: cache_note_def)
  next
    case N: (Inr N)
    show ?thesis
    proof (cases "extract_note_tags fs note")
      case (Inl e)
      with True N assms show ?thesis by (simp add: cache_note_def)
    next
      case T: (Inr T)
      let ?p = "get_note_path_for_note_name cfg N"
      let ?mv = "if ?p \<noteq> note then
                  (case rename fs note ?p of
                     Inl e \<Rightarrow> (Inl e, fs, c)
                   | Inr fs1 \<Rightarrow> (case uncache_note c note of (r, c1) \<Rightarrow> (r, fs1, c1)))
                else (Inr (), fs, c)"
      obtain m fx cx where mv: "?mv = (m, fx, cx)" by (cases ?mv)
      have sub: "names c k = Some v" if "names cx k = Some v" for k v
      proof (cases "cx = c")
        case True
        with that show ?thesis by simp
      next
        case False
        with mv obtain u where "uncache_note c note = (u, cx)"
          by (auto split: if_splits sum.splits prod.splits)
        from uncache_note_names [OF this that] show ?thesis .
      qed
      from assms(1) True N T mv
      have "names c1 = names cx \<or> names c1 = (names cx)(N \<mapsto> ?p)"
        unfolding cache_note_def
        by (auto simp: Let_def split: sum.splits option.splits prod.splits)
      then show ?thesis
      proof
        assume "names c1 = names cx"
        with assms(2) sub show ?thesis by simp
      next
        assume "names c1 = (names cx)(N \<mapsto> ?p)"
        with assms(2) sub show ?thesis by (cases "n = N") simp_all
      qed
    qed
  qed
qed

text \<open>
  C10: in every index that calls of \<open>cache_note\<close> and \<open>uncache_note\<close> produce from the empty
  one, whatever the files were at each call and whether the calls returned or raised,
  every entry of \<open>names\<close> maps a name to the canonical path that
  \<open>get_note_path_for_note_name\<close> computes for that name.
\<close>

theorem reachable_names_canonical:
  assumes "reachable cfg c" and "names c n = Some p"
  shows "p = get_note_path_for_note_name cfg n"
  using assms
proof (induction arbitrary: n p)
  case reachable_empty
  then show ?case by (simp add: empty_cache_def)
next
  case (reachable_cache c fs nt r fs' c')
  from cache_note_names [OF reachable_cache.hyps(2) reachable_cache.prems]
  show ?case using reachable_cache.IH by blast
next
  case (reachable_uncache c nt u c')
  from uncache_note_names [OF reachable_uncache.hyps(2) reachable_uncache.prems]
  show ?case by (rule reachable_uncache.IH)
qed

theorem reachable_names_canonical_witness:
  "reachable flat_config
     (snd (snd (cache_note flat_config (one_note ''tmp.md'' shopping_list) empty_cache ''tmp.md'')))
   \<and> names (snd (snd (cache_note flat_config (one_note ''tmp.md'' shopping_list) empty_cache ''tmp.md'')))
        ''Shopping List'' = Some ''shopping_list.md''
   \<and> ''shopping_list.md'' = get_note_path_for_note_name flat_config ''Shopping List''"
proof -
  let ?X = "cache_note flat_config (one_note ''tmp.md'' shopping_list) empty_cache ''tmp.md''"
  have "?X = (fst ?X, fst (snd ?X), snd (snd ?X))" by simp
  with reachable_empty have a: "reachable flat_config (snd (snd ?X))" by (rule reachable_cache)
  have b: "names (snd (snd ?X)) ''Shopping List'' = Some ''shopping_list.md''"
    by code_simp
  from reachable_names_canonical [OF a b] a b show ?thesis by blast
qed

section \<open>Repeated tags\<close>

text \<open>
  C7 states the tag diff for every previous tag list, also one with a repeated tag. The
  code keeps the tag list of an entry with its repetitions, while the index of a tag is a
  set: the note \<open>n.md\<close> with the tag line \<open>#a #a\<close> is indexed with the list \<open>[a, a]\<close> and
  the set \<open>tags[a] = {n.md}\<close>. When its tag line becomes \<open>#b\<close>, the loop over the previous
  tags removes the path from \<open>tags[a]\<close> at the first \<open>a\<close> and raises \<open>KeyError\<close> at the second:
  the new tag \<open>b\<close> is never added and the entry in \<open>notes\<close> keeps the old tags.
\<close>

theorem cache_note_repeated_tag_raises:
  "fst (cache_note flat_config (one_note ''n.md'' ''## N\<newline>#a #a\<newline>'') empty_cache ''n.md'')
     = Inr (Some ''n.md'')
   \<and> notes (snd (snd (cache_note flat_config (one_note ''n.md'' ''## N\<newline>#a #a\<newline>'') empty_cache ''n.md'')))
        ''n.md'' = Some \<lparr>entry_name = ''N'', entry_tags = [''a'', ''a'']\<rparr>
   \<and> tags (snd (snd (cache_note flat_config (one_note ''n.md'' ''## N\<newline>#a #a\<newline>'') empty_cache ''n.md'')))
        ''a'' = Some {''n.md''}
   \<and> fst (cache_note flat_config (one_note ''n.md'' ''## N\<newline>#b\<newline>'')
         (snd (snd (cache_note flat_config (one_note ''n.md'' ''## N\<newline>#a #a\<newline>'') empty_cache ''n.md'')))
         ''n.md'') = Inl KeyError
   \<and> tags (snd (snd (cache_note flat_config (one_note ''n.md'' ''## N\<newline>#b\<newline>'')
         (snd (snd (cache_note flat_config (one_note ''n.md'' ''## N\<newline>#a #a\<newline>'') empty_cache ''n.md'')))
         ''n.md''))) ''b'' = None
   \<and> notes (snd (snd (cache_note flat_config (one_note ''n.md'' ''## N\<newline>#b\<newline>'')
         (snd (snd (cache_note flat_config (one_note ''n.md'' ''## N\<newline>#a #a\<newline>'') empty_cache ''n.md'')))
         ''n.md''))) ''n.md'' = Some \<lparr>entry_name = ''N'', entry_tags = [''a'', ''a'']\<rparr>"
  by code_simp

text \<open>
  C8 states that \<open>cache_note\<close> does not raise for a path whose file is missing. After the
  note \<open>n.md\<close> with the tag line \<open>#a #a\<close> was indexed and its file deleted, \<open>cache_note\<close>
  calls \<open>uncache_note\<close>, whose loop raises \<open>KeyError\<close> at the second \<open>a\<close>: the names entry is
  gone and the entry in \<open>notes\<close> stays.
\<close>

theorem cache_note_missing_file_raises:
  "fst (cache_note flat_config (one_note ''n.md'' ''## N\<newline>#a #a\<newline>'') empty_cache ''n.md'')
     = Inr (Some ''n.md'')
   \<and> \<not> exists_path no_files ''n.md''
   \<and> fst (cache_note flat_config no_files
         (snd (snd (cache_note flat_config (one_note ''n.md'' ''## N\<newline>#a #a\<newline>'') empty_cache ''n.md'')))
         ''n.md'') = Inl KeyError
   \<and> notes (snd (snd (cache_note flat_config no_files
         (snd (snd (cache_note flat_config (one_note ''n.md'' ''## N\<newline>#a #a\<newline>'') empty_cache ''n.md'')))
         ''n.md''))) ''n.md'' = Some \<lparr>entry_name = ''N'', entry_tags = [''a'', ''a'']\<rparr>
   \<and> names (snd (snd (cache_note flat_config no_files
         (snd (snd (cache_note flat_config (one_note ''n.md'' ''## N\<newline>#a #a\<newline>'') empty_cache ''n.md'')))
         ''n.md''))) ''N'' = None"
  by code_simp

text \<open>
  Without a repeated tag the diff is the one of the specification's scenario: the tags
  change from \<open>a, b\<close> to \<open>b, c\<close>.
\<close>

lemma cache_note_tag_diff_scenario:
  "fst (cache_note flat_config (one_note ''n.md'' ''## N\<newline>#b #c\<newline>'')
         (snd (snd (cache_note flat_config (one_note ''n.md'' ''## N\<newline>#a #b\<newline>'') empty_cache ''n.md'')))
         ''n.md'') = Inr (Some ''n.md'')
   \<and> tags (snd (snd (cache_note flat_config (one_note ''n.md'' ''## N\<newline>#b #c\<newline>'')
         (snd (snd (cache_note flat_config (one_note ''n.md'' ''## N\<newline>#a #b\<newline>'') empty_cache ''n.md'')))
         ''n.md''))) ''a'' = Some {}
   \<and> tags (snd (snd (cache_note flat_config (one_note ''n.md'' ''## N\<newline>#b #c\<newline>'')
         (snd (snd (cache_note flat_config (one_note ''n.md'' ''## N\<newline>#a #b\<newline>'') empty_cache ''n.md'')))
         ''n.md''))) ''b'' = Some {''n.md''}
   \<and> tags (snd (snd (cache_note flat_config (one_note ''n.md'' ''## N\<newline>#b #c\<newline>'')
         (snd (snd (cache_note flat_config (one_note ''n.md'' ''## N\<newline>#a #b\<newline>'') empty_cache ''n.md'')))
         ''n.md''))) ''c'' = Some {''n.md''}"
  by code_simp

section \<open>Canonical paths\<close>

lemma split_on_not_Nil: "split_on sep s \<noteq> []"
  by (induction s) (auto split: list.splits)

lemma split_on_plain: "sep \<notin> set s \<Longrightarrow> split_on sep s = [s]"
  by (induction s) auto

lemma split_on_append:
  "split_on sep (a @ sep # b) = split_on sep a @ split_on sep b"
proof (induction a)
  case Nil
  show ?case by simp
next
  case (Cons x a)
  obtain p ps where "split_on sep a = p # ps"
    using split_on_not_Nil [of sep a] by (cases "split_on sep a") auto
  with Cons show ?case by simp
qed

lemma str_join_snoc:
  "ps \<noteq> [] \<Longrightarrow> str_join sep (ps @ [f]) = str_join sep ps @ sep @ f"
  by (induction sep ps rule: str_join.induct) simp_all

lemma Path_plain:
  assumes "CHR ''/'' \<notin> set f" and "f \<noteq> []" and "f \<noteq> ''.''"
  shows "Path f = f"
proof -
  from assms(1,2) have "\<not> str_startswith f ''/''"
    by (cases f) (auto simp: str_startswith_def)
  moreover from this have "\<not> str_startswith f ''//''"
    by (cases f) (auto simp: str_startswith_def)
  ultimately show ?thesis
    using assms by (simp add: Path_def split_on_plain)
qed

lemma root_append:
  assumes "d \<noteq> []" and "last d \<noteq> CHR ''/''"
  shows "str_startswith (d @ ''/'' @ f) ''/'' = str_startswith d ''/''"
    and "str_startswith (d @ ''/'' @ f) ''//'' = str_startswith d ''//''"
    and "str_startswith (d @ ''/'' @ f) ''///'' = str_startswith d ''///''"
proof -
  consider x where "d = [x]" "x \<noteq> CHR ''/''"
    | x y where "d = [x, y]" "y \<noteq> CHR ''/''"
    | x y z r where "d = x # y # z # r"
    using assms by (cases d; cases "tl d"; cases "tl (tl d)") auto
  then show "str_startswith (d @ ''/'' @ f) ''/'' = str_startswith d ''/''"
    and "str_startswith (d @ ''/'' @ f) ''//'' = str_startswith d ''//''"
    and "str_startswith (d @ ''/'' @ f) ''///'' = str_startswith d ''///''"
    by (cases; simp add: str_startswith_def)+
qed

lemma joinpath_plain:
  assumes "Path d = d" and "d \<noteq> ''.''" and "last d \<noteq> CHR ''/''"
    and "CHR ''/'' \<notin> set f" and "f \<noteq> []" and "f \<noteq> ''.''"
  shows "joinpath d f = d @ ''/'' @ f"
proof -
  define root where "root = (if str_startswith d ''//'' \<and> \<not> str_startswith d ''///'' then ''//''
                  else if str_startswith d ''/'' then ''/'' else [])"
  define parts where "parts = filter (\<lambda>p. p \<noteq> [] \<and> p \<noteq> ''.'') (split_on CHR ''/'' d)"
  have Pd: "Path d = (if root = [] \<and> parts = [] then ''.'' else root @ str_join ''/'' parts)"
    by (simp add: Path_def root_def parts_def)
  have d_ne: "d \<noteq> []"
    using assms(1) by (auto simp: Path_def Let_def split: if_splits)
  have parts_ne: "parts \<noteq> []"
  proof
    assume e: "parts = []"
    with Pd have "Path d = (if root = [] then ''.'' else root)" by simp
    then have "d = (if root = [] then ''.'' else root)" unfolding assms(1) .
    with assms(2) have "d = root" by (cases "root = []") simp_all
    moreover have "root = [] \<or> root = ''/'' \<or> root = ''//''" by (simp add: root_def)
    ultimately show False using assms(3) d_ne by auto
  qed
  with Pd have "Path d = root @ str_join ''/'' parts" by simp
  then have d_eq: "d = root @ str_join ''/'' parts" unfolding assms(1) .
  have f_first: "\<not> str_startswith f ''/''"
    using assms(4,5) by (cases f) (auto simp: str_startswith_def)
  then have pj: "posix_join d f = d @ ''/'' @ f"
    using d_ne assms(3) by (simp add: posix_join_def)
  have sp: "split_on CHR ''/'' (d @ ''/'' @ f) = split_on CHR ''/'' d @ [f]"
    using split_on_append [of "CHR ''/''" d f] assms(4) by (simp add: split_on_plain)
  have "Path (d @ ''/'' @ f) = root @ str_join ''/'' (parts @ [f])"
    unfolding Path_def root_append [OF d_ne assms(3)] sp
    using assms(5,6) parts_ne by (simp add: root_def parts_def)
  also have "\<dots> = root @ str_join ''/'' parts @ ''/'' @ f"
    using parts_ne by (simp add: str_join_snoc)
  also have "\<dots> = d @ ''/'' @ f" using d_eq by simp
  finally show ?thesis by (simp add: joinpath_def pj)
qed

lemma joinpath_dot:
  assumes "CHR ''/'' \<notin> set f" and "f \<noteq> []" and "f \<noteq> ''.''"
  shows "joinpath ''.'' f = f"
proof -
  have f_first: "\<not> str_startswith f ''/''"
    using assms(1,2) by (cases f) (auto simp: str_startswith_def)
  then have pj: "posix_join ''.'' f = ''./'' @ f" by (simp add: posix_join_def)
  have sp: "split_on CHR ''/'' (''./'' @ f) = [''.'', f]"
    using assms(1) by (simp add: split_on_plain)
  show ?thesis
    unfolding joinpath_def pj Path_def sp using assms by (simp add: str_startswith_def)
qed

section \<open>Renaming a note to its canonical path\<close>

lemma remove_tags_subset:
  assumes "remove_tags p ts T = (None, T')" and "T' t = Some S"
  shows "\<exists>S0. T t = Some S0 \<and> S \<subseteq> S0"
proof -
  from remove_tags_None [OF assms(1)]
  have "distinct ts" "\<And>u. u \<in> set ts \<Longrightarrow> \<exists>S. T u = Some S \<and> p \<in> S" by blast+
  from remove_tags_ok [OF this] assms(1)
  have "T' = (\<lambda>t. if t \<in> set ts then map_option (\<lambda>S. S - {p}) (T t) else T t)" by simp
  with assms(2) show ?thesis by (auto split: if_splits)
qed

lemma add_tags_other:
  "add_tags p ts T t = Some S \<Longrightarrow> q \<in> S \<Longrightarrow> q \<noteq> p \<Longrightarrow> \<exists>S0. T t = Some S0 \<and> q \<in> S0"
  by (auto simp: add_tags_eq split: if_splits option.splits)

lemma uncache_note_forgets:
  assumes "uncache_note c p = (Inr u, c')"
    and "\<forall>n. names c n = Some p \<longrightarrow> (\<exists>e. notes c p = Some e \<and> n = entry_name e)"
    and "\<forall>t S. tags c t = Some S \<and> p \<in> S \<longrightarrow> (\<exists>e. notes c p = Some e \<and> t \<in> set (entry_tags e))"
  shows "notes c' p = None \<and> (\<forall>n. names c' n \<noteq> Some p) \<and> (\<forall>t S. tags c' t = Some S \<longrightarrow> p \<notin> S)"
  using uncache_note_returned [OF assms(1)]
proof
  assume "notes c p = None \<and> c' = c"
  with assms(2,3) show ?thesis by auto
next
  assume "\<exists>e. notes c p = Some e \<and> names c (entry_name e) \<noteq> None \<and> distinct (entry_tags e)
              \<and> (\<forall>t\<in>set (entry_tags e). \<exists>S. tags c t = Some S \<and> p \<in> S)
              \<and> c' = c\<lparr>names := (names c)(entry_name e := None),
                        tags := (\<lambda>t. if t \<in> set (entry_tags e) then map_option (\<lambda>S. S - {p}) (tags c t) else tags c t),
                        notes := (notes c)(p := None)\<rparr>"
  then obtain e where e: "notes c p = Some e"
    and c': "c' = c\<lparr>names := (names c)(entry_name e := None),
                        tags := (\<lambda>t. if t \<in> set (entry_tags e) then map_option (\<lambda>S. S - {p}) (tags c t) else tags c t),
                        notes := (notes c)(p := None)\<rparr>"
    by blast
  have "names c' n \<noteq> Some p" for n
    using assms(2) e unfolding c' by auto
  moreover have "p \<notin> S" if "tags c' t = Some S" for t S
    using assms(3) e that unfolding c' by (auto split: if_splits)
  moreover have "notes c' p = None" unfolding c' by simp
  ultimately show ?thesis by blast
qed

text \<open>
  C6, as the claim states it, fails on the code. (1) The rename comes before the removal
  of the old entry, and the removal can raise: the note \<open>a.md\<close> named \<open>A\<close> with the tag line
  \<open>#x #x\<close> is indexed, its name becomes \<open>B\<close>, and \<open>cache_note\<close> moves the file to \<open>b.md\<close> and
  then raises \<open>KeyError\<close>; the index still has the entry of \<open>a.md\<close> and none for \<open>b.md\<close>.
  (2) When the operating system refuses the rename, the error goes to the caller and the
  file stays at \<open>foo.md\<close>. (3) A name that begins with \<open>/\<close> has a canonical path outside the
  note directory. (4) After the name in \<open>n.md\<close> changed from \<open>n\<close> to \<open>N\<close> and then to \<open>M\<close>, the
  file is at \<open>m.md\<close> and \<open>names\<close> still maps \<open>n\<close> to the old path \<open>n.md\<close>.
\<close>

theorem cache_note_rename_counterexample:
  "fst (cache_note flat_config (one_note ''a.md'' ''## B\<newline>#x #x\<newline>'')
         (snd (snd (cache_note flat_config (one_note ''a.md'' ''## A\<newline>#x #x\<newline>'') empty_cache ''a.md'')))
         ''a.md'') = Inl KeyError
   \<and> files (fst (snd (cache_note flat_config (one_note ''a.md'' ''## B\<newline>#x #x\<newline>'')
         (snd (snd (cache_note flat_config (one_note ''a.md'' ''## A\<newline>#x #x\<newline>'') empty_cache ''a.md'')))
         ''a.md''))) ''b.md'' = Some ''## B\<newline>#x #x\<newline>''
   \<and> notes (snd (snd (cache_note flat_config (one_note ''a.md'' ''## B\<newline>#x #x\<newline>'')
         (snd (snd (cache_note flat_config (one_note ''a.md'' ''## A\<newline>#x #x\<newline>'') empty_cache ''a.md'')))
         ''a.md''))) ''a.md'' = Some \<lparr>entry_name = ''A'', entry_tags = [''x'', ''x'']\<rparr>
   \<and> notes (snd (snd (cache_note flat_config (one_note ''a.md'' ''## B\<newline>#x #x\<newline>'')
         (snd (snd (cache_note flat_config (one_note ''a.md'' ''## A\<newline>#x #x\<newline>'') empty_cache ''a.md'')))
         ''a.md''))) ''b.md'' = None
   \<and> get_note_path_for_note_name flat_config ''Bar Baz'' = ''bar_baz.md''
   \<and> cache_note flat_config (refusing (one_note ''foo.md'' ''## Bar Baz\<newline>#t\<newline>'')) empty_cache ''foo.md''
       = (Inl OSError, refusing (one_note ''foo.md'' ''## Bar Baz\<newline>#t\<newline>''), empty_cache)
   \<and> get_note_path_for_note_name home_config ''/tmp/Plan'' = ''/tmp/plan.md''
   \<and> fst (cache_note flat_config (one_note ''n.md'' ''## M\<newline>#t\<newline>'')
         (snd (snd (cache_note flat_config (one_note ''n.md'' ''## N\<newline>#t\<newline>'')
            (snd (snd (cache_note flat_config (one_note ''n.md'' ''## n\<newline>#t\<newline>'') empty_cache ''n.md'')))
            ''n.md'')))
         ''n.md'') = Inr (Some ''m.md'')
   \<and> names (snd (snd (cache_note flat_config (one_note ''n.md'' ''## M\<newline>#t\<newline>'')
         (snd (snd (cache_note flat_config (one_note ''n.md'' ''## N\<newline>#t\<newline>'')
            (snd (snd (cache_note flat_config (one_note ''n.md'' ''## n\<newline>#t\<newline>'') empty_cache ''n.md'')))
            ''n.md'')))
         ''n.md''))) ''n'' = Some ''n.md''"
proof -
  have ref: "cache_note flat_config (refusing (one_note ''foo.md'' ''## Bar Baz\<newline>#t\<newline>'')) empty_cache ''foo.md''
       = (Inl OSError, refusing (one_note ''foo.md'' ''## Bar Baz\<newline>#t\<newline>''), empty_cache)"
  proof -
    have "get_note_path_for_note_name flat_config ''Bar Baz'' \<noteq> ''foo.md''" by code_simp
    moreover have "exists_path (refusing (one_note ''foo.md'' ''## Bar Baz\<newline>#t\<newline>'')) ''foo.md''"
      by code_simp
    moreover have "extract_note_name (refusing (one_note ''foo.md'' ''## Bar Baz\<newline>#t\<newline>'')) ''foo.md'' = Inr ''Bar Baz''"
      by code_simp
    moreover have "extract_note_tags (refusing (one_note ''foo.md'' ''## Bar Baz\<newline>#t\<newline>'')) ''foo.md'' = Inr [''t'']"
      by code_simp
    moreover have "rename (refusing (one_note ''foo.md'' ''## Bar Baz\<newline>#t\<newline>'')) ''foo.md'' p = Inl OSError" for p
      by (simp add: rename_def refusing_def one_note_def)
    ultimately show ?thesis by (simp add: cache_note_def)
  qed
  show ?thesis
    by (intro conjI ref) code_simp+
qed

lemma canonical_path_plain:
  assumes "f = str_join ''_'' (str_split (str_lower N)) @ ''.'' @ note_file_ext cfg"
    and "d = expanduser cfg (Path (note_location cfg))"
    and "CHR ''/'' \<notin> set f" and "f \<noteq> ''.''"
  shows "d = ''.'' \<longrightarrow> get_note_path_for_note_name cfg N = f"
    and "Path d = d \<and> d \<noteq> ''.'' \<and> last d \<noteq> CHR ''/''
           \<longrightarrow> get_note_path_for_note_name cfg N = d @ ''/'' @ f"
proof -
  from assms(1) have ne: "f \<noteq> []" by simp
  from assms(3) ne assms(4) have pf: "Path f = f" by (rule Path_plain)
  have "get_note_path_for_note_name cfg N = joinpath d (Path f)"
    by (simp add: get_note_path_for_note_name_def assms(1,2))
  then have canon: "get_note_path_for_note_name cfg N = joinpath d f"
    unfolding pf .
  show "d = ''.'' \<longrightarrow> get_note_path_for_note_name cfg N = f"
    using joinpath_dot [OF assms(3) ne assms(4)] canon by simp
  show "Path d = d \<and> d \<noteq> ''.'' \<and> last d \<noteq> CHR ''/''
           \<longrightarrow> get_note_path_for_note_name cfg N = d @ ''/'' @ f"
    using joinpath_plain [OF _ _ _ assms(3) ne assms(4), of d] canon by simp
qed

text \<open>
  C6, amended. The canonical path of a name is \<open>Path(location).expanduser() / Path(f)\<close>,
  where \<open>f\<close> is the words of the lowercased name joined by underscores, a dot and the
  extension; when \<open>f\<close> has no slash, the path is \<open>f\<close> directly inside the note directory.
  Whenever a \<open>cache_note\<close> call on an existing note, whose path differs from the canonical
  path of its name, returns: it returns the canonical path, the file is there and no
  longer at the old path, the old path is no key of \<open>notes\<close>, the new path is indexed with
  the parsed name and tags, \<open>names\<close> maps the name to the new path and the set of every
  parsed tag holds it; and nothing in \<open>names\<close> or \<open>tags\<close> mentions the old path if before the
  call only the old entry's name and tags did.
\<close>

theorem cache_note_rename:
  assumes "cache_note cfg fs c old = (Inr (Some p), fs1, c1)"
    and "files fs old = Some content"
    and "read_note_name content = Inr N"
    and "read_note_tags content = Inr T"
    and "get_note_path_for_note_name cfg N \<noteq> old"
    and "f = str_join ''_'' (str_split (str_lower N)) @ ''.'' @ note_file_ext cfg"
    and "d = expanduser cfg (Path (note_location cfg))"
  shows "p = get_note_path_for_note_name cfg N
       \<and> p = joinpath d (Path f)
       \<and> (CHR ''/'' \<notin> set f \<and> f \<noteq> ''.'' \<and> d = ''.'' \<longrightarrow> p = f)
       \<and> (CHR ''/'' \<notin> set f \<and> f \<noteq> ''.'' \<and> Path d = d \<and> d \<noteq> ''.'' \<and> last d \<noteq> CHR ''/''
            \<longrightarrow> p = d @ ''/'' @ f)
       \<and> files fs1 old = None \<and> files fs1 p = Some content
       \<and> notes c1 old = None
       \<and> notes c1 p = Some \<lparr>entry_name = N, entry_tags = T\<rparr>
       \<and> names c1 N = Some p
       \<and> (\<forall>t\<in>set T. \<exists>S. tags c1 t = Some S \<and> p \<in> S)
       \<and> ((\<forall>n. names c n = Some old \<longrightarrow> (\<exists>e. notes c old = Some e \<and> n = entry_name e))
           \<and> (\<forall>t S. tags c t = Some S \<and> old \<in> S
                 \<longrightarrow> (\<exists>e. notes c old = Some e \<and> t \<in> set (entry_tags e)))
          \<longrightarrow> (\<forall>n. names c1 n \<noteq> Some old) \<and> (\<forall>t S. tags c1 t = Some S \<longrightarrow> old \<notin> S))"
  using assms(1)
proof (rule cache_note_returned)
  fix content' N' T' cx Tm
  assume a: "files fs old = Some content'" "read_note_name content' = Inr N'"
    "read_note_tags content' = Inr T'" "p = get_note_path_for_note_name cfg N'"
    and moved: "p \<noteq> old \<Longrightarrow> rename fs old p = Inr fs1 \<and> (\<exists>u. uncache_note c old = (Inr u, cx))"
    and rm: "remove_prev_tags p T' (case notes cx p of None \<Rightarrow> [] | Some e \<Rightarrow> entry_tags e) (tags cx) = (None, Tm)"
    and c1: "c1 = cx\<lparr>names := (names cx)(N' \<mapsto> p), tags := add_tags p T' Tm,
              notes := (notes cx)(p \<mapsto> \<lparr>entry_name = N', entry_tags = T'\<rparr>)\<rparr>"
  from a(1-3) assms(2-4) have same: "N' = N" "T' = T" "content' = content" by simp_all
  from a(4) same have p: "p = get_note_path_for_note_name cfg N" by simp
  with assms(5) have neq: "p \<noteq> old" by simp
  from moved [OF neq] obtain u where mv: "rename fs old p = Inr fs1"
    and un: "uncache_note c old = (Inr u, cx)" by blast
  from rename_file [OF assms(2) mv] neq
  have fs1: "files fs1 old = None" "files fs1 p = Some content" by simp_all
  from uncache_note_returned [OF un] have gone: "notes cx old = None" by auto
  with neq have n1: "notes c1 old = None" unfolding c1 by simp
  have n2: "notes c1 p = Some \<lparr>entry_name = N, entry_tags = T\<rparr>" "names c1 N = Some p"
    unfolding c1 same by simp_all
  have tg: "\<forall>t\<in>set T. \<exists>S. tags c1 t = Some S \<and> p \<in> S"
    using add_tags_member [of _ T p Tm] unfolding c1 same by simp
  have frame: "(\<forall>n. names c1 n \<noteq> Some old) \<and> (\<forall>t S. tags c1 t = Some S \<longrightarrow> old \<notin> S)"
    if h: "(\<forall>n. names c n = Some old \<longrightarrow> (\<exists>e. notes c old = Some e \<and> n = entry_name e))
           \<and> (\<forall>t S. tags c t = Some S \<and> old \<in> S
                 \<longrightarrow> (\<exists>e. notes c old = Some e \<and> t \<in> set (entry_tags e)))"
  proof -
    from h have h1: "\<forall>n. names c n = Some old \<longrightarrow> (\<exists>e. notes c old = Some e \<and> n = entry_name e)"
      and h2: "\<forall>t S. tags c t = Some S \<and> old \<in> S \<longrightarrow> (\<exists>e. notes c old = Some e \<and> t \<in> set (entry_tags e))"
      by blast+
    from uncache_note_forgets [OF un h1 h2]
    have cx: "\<forall>n. names cx n \<noteq> Some old" "\<forall>t S. tags cx t = Some S \<longrightarrow> old \<notin> S" by blast+
    have "names c1 n \<noteq> Some old" for n
      using cx(1) neq unfolding c1 by simp
    moreover have "old \<notin> S" if "tags c1 t = Some S" for t S
    proof
      assume "old \<in> S"
      from that have "add_tags p T' Tm t = Some S" unfolding c1 by simp
      from add_tags_other [OF this \<open>old \<in> S\<close>] neq
      obtain S0 where S0: "Tm t = Some S0" "old \<in> S0" by blast
      from rm have "remove_tags p (filter (\<lambda>t. t \<notin> set T') (case notes cx p of None \<Rightarrow> [] | Some e \<Rightarrow> entry_tags e)) (tags cx) = (None, Tm)"
        by (simp add: remove_prev_tags_filter)
      from remove_tags_subset [OF this S0(1)] S0(2)
      obtain S1 where "tags cx t = Some S1" "old \<in> S1" by blast
      with cx(2) show False by blast
    qed
    ultimately show ?thesis by blast
  qed
  have cp: "p = joinpath d (Path f)"
    unfolding p by (simp add: get_note_path_for_note_name_def assms(6,7))
  from canonical_path_plain [OF assms(6,7)] p
  have plain: "CHR ''/'' \<notin> set f \<and> f \<noteq> ''.'' \<and> d = ''.'' \<longrightarrow> p = f"
    "CHR ''/'' \<notin> set f \<and> f \<noteq> ''.'' \<and> Path d = d \<and> d \<noteq> ''.'' \<and> last d \<noteq> CHR ''/''
            \<longrightarrow> p = d @ ''/'' @ f"
    by blast+
  from p cp plain fs1 n1 n2 tg frame show ?thesis by blast
qed


theorem cache_note_rename_witness:
  "fst (cache_note flat_config (one_note ''foo.md'' ''## Bar Baz\<newline>#t\<newline>'')
         (snd (snd (cache_note flat_config (one_note ''foo.md'' ''## Foo\<newline>#t\<newline>'') empty_cache ''foo.md'')))
         ''foo.md'') = Inr (Some ''bar_baz.md'')
   \<and> files (one_note ''foo.md'' ''## Bar Baz\<newline>#t\<newline>'') ''foo.md'' = Some ''## Bar Baz\<newline>#t\<newline>''
   \<and> read_note_name ''## Bar Baz\<newline>#t\<newline>'' = Inr ''Bar Baz''
   \<and> read_note_tags ''## Bar Baz\<newline>#t\<newline>'' = Inr [''t'']
   \<and> get_note_path_for_note_name flat_config ''Bar Baz'' \<noteq> ''foo.md''
   \<and> notes (snd (snd (cache_note flat_config (one_note ''foo.md'' ''## Foo\<newline>#t\<newline>'') empty_cache ''foo.md'')))
        ''foo.md'' = Some \<lparr>entry_name = ''Foo'', entry_tags = [''t'']\<rparr>
   \<and> files (fst (snd (cache_note flat_config (one_note ''foo.md'' ''## Bar Baz\<newline>#t\<newline>'')
         (snd (snd (cache_note flat_config (one_note ''foo.md'' ''## Foo\<newline>#t\<newline>'') empty_cache ''foo.md'')))
         ''foo.md''))) ''foo.md'' = None
   \<and> files (fst (snd (cache_note flat_config (one_note ''foo.md'' ''## Bar Baz\<newline>#t\<newline>'')
         (snd (snd (cache_note flat_config (one_note ''foo.md'' ''## Foo\<newline>#t\<newline>'') empty_cache ''foo.md'')))
         ''foo.md''))) ''bar_baz.md'' = Some ''## Bar Baz\<newline>#t\<newline>''
   \<and> notes (snd (snd (cache_note flat_config (one_note ''foo.md'' ''## Bar Baz\<newline>#t\<newline>'')
         (snd (snd (cache_note flat_config (one_note ''foo.md'' ''## Foo\<newline>#t\<newline>'') empty_cache ''foo.md'')))
         ''foo.md''))) ''foo.md'' = None
   \<and> notes (snd (snd (cache_note flat_config (one_note ''foo.md'' ''## Bar Baz\<newline>#t\<newline>'')
         (snd (snd (cache_note flat_config (one_note ''foo.md'' ''## Foo\<newline>#t\<newline>'') empty_cache ''foo.md'')))
         ''foo.md''))) ''bar_baz.md'' = Some \<lparr>entry_name = ''Bar Baz'', entry_tags = [''t'']\<rparr>
   \<and> names (snd (snd (cache_note flat_config (one_note ''foo.md'' ''## Bar Baz\<newline>#t\<newline>'')
         (snd (snd (cache_note flat_config (one_note ''foo.md'' ''## Foo\<newline>#t\<newline>'') empty_cache ''foo.md'')))
         ''foo.md''))) ''Bar Baz'' = Some ''bar_baz.md''
   \<and> names (snd (snd (cache_note flat_config (one_note ''foo.md'' ''## Bar Baz\<newline>#t\<newline>'')
         (snd (snd (cache_note flat_config (one_note ''foo.md'' ''## Foo\<newline>#t\<newline>'') empty_cache ''foo.md'')))
         ''foo.md''))) ''Foo'' = None
   \<and> tags (snd (snd (cache_note flat_config (one_note ''foo.md'' ''## Bar Baz\<newline>#t\<newline>'')
         (snd (snd (cache_note flat_config (one_note ''foo.md'' ''## Foo\<newline>#t\<newline>'') empty_cache ''foo.md'')))
         ''foo.md''))) ''t'' = Some {''bar_baz.md''}"
proof -
  let ?c0 = "snd (snd (cache_note flat_config (one_note ''foo.md'' ''## Foo\<newline>#t\<newline>'') empty_cache ''foo.md''))"
  let ?X = "cache_note flat_config (one_note ''foo.md'' ''## Bar Baz\<newline>#t\<newline>'') ?c0 ''foo.md''"
  have d: "fst ?X = Inr (Some ''bar_baz.md'')" by code_simp
  have a: "files (one_note ''foo.md'' ''## Bar Baz\<newline>#t\<newline>'') ''foo.md'' = Some ''## Bar Baz\<newline>#t\<newline>''"
    by (simp add: one_note_def)
  have b: "read_note_name ''## Bar Baz\<newline>#t\<newline>'' = Inr ''Bar Baz''" by code_simp
  have c: "read_note_tags ''## Bar Baz\<newline>#t\<newline>'' = Inr [''t'']" by code_simp
  have e: "get_note_path_for_note_name flat_config ''Bar Baz'' \<noteq> ''foo.md''" by code_simp
  have g: "notes ?c0 ''foo.md'' = Some \<lparr>entry_name = ''Foo'', entry_tags = [''t'']\<rparr>" by code_simp
  have h: "?X = (Inr (Some ''bar_baz.md''), fst (snd ?X), snd (snd ?X))"
    by (rule prod_eqI) (simp_all add: d)
  from cache_note_rename [OF h a b c e refl refl]
  have r: "files (fst (snd ?X)) ''foo.md'' = None"
    "files (fst (snd ?X)) ''bar_baz.md'' = Some ''## Bar Baz\<newline>#t\<newline>''"
    "notes (snd (snd ?X)) ''foo.md'' = None"
    "notes (snd (snd ?X)) ''bar_baz.md'' = Some \<lparr>entry_name = ''Bar Baz'', entry_tags = [''t'']\<rparr>"
    "names (snd (snd ?X)) ''Bar Baz'' = Some ''bar_baz.md''"
    by blast+
  have k: "names (snd (snd ?X)) ''Foo'' = None" "tags (snd (snd ?X)) ''t'' = Some {''bar_baz.md''}"
    by code_simp+
  from d a b c e g r k show ?thesis by blast
qed

end
